theory Spec2Isabelle
  imports Complex_Main "HOL-Library.Word"
begin

section \<open>Leaf values\<close>

text \<open>
  JavaScript numbers that hold coordinates and colour channels are idealised as reals
  (no rounding, no NaN, no infinities); numbers that hold times, modes, packed colours
  and indices are integers. The math classes (Vect2d, Vect3d, Matrix4, ColorF) and the
  colour helpers are leaves whose files are not part of the source: vectors and colours
  are records of their fields, matrices stay an abstract type \<open>'m\<close>, and the leaf
  methods that the renderer and the scene call are taken as the parameter record
  \<open>Math_ops\<close>.
\<close>

record Vect2d =
  X :: real
  Y :: real

record Vect3d =
  X :: real
  Y :: real
  Z :: real

record ColorF =
  R :: real
  G :: real
  B :: real

record 'm Math_ops =
  multiply :: "'m \<Rightarrow> 'm \<Rightarrow> 'm"
  equals :: "'m \<Rightarrow> 'm \<Rightarrow> bool"
  identity :: "'m"
  getInverse :: "'m \<Rightarrow> 'm \<Rightarrow> 'm"
  makeInverse :: "'m \<Rightarrow> 'm"
  getTransposed :: "'m \<Rightarrow> 'm"
  getTransformedVect :: "'m \<Rightarrow> Vect3d \<Rightarrow> Vect3d"
  rotateVect :: "'m \<Rightarrow> Vect3d \<Rightarrow> Vect3d"
  getDistanceFromSQ :: "Vect3d \<Rightarrow> Vect3d \<Rightarrow> real"
  multiplyThisWithScal :: "Vect3d \<Rightarrow> real \<Rightarrow> Vect3d"
  normalize :: "Vect3d \<Rightarrow> Vect3d"
  getRed :: "int \<Rightarrow> real"
  getGreen :: "int \<Rightarrow> real"
  getBlue :: "int \<Rightarrow> real"
  getAlpha :: "int \<Rightarrow> real"

text \<open>
  \<open>getInverse M w out\<close> is the content of \<open>out\<close> after \<open>w.getInverse(out)\<close>,
  \<open>makeInverse M m\<close> the content of \<open>m\<close> after \<open>m.makeInverse()\<close>, and
  \<open>identity M\<close> is \<open>new CL3D.Matrix4(true)\<close>.
\<close>

datatype error = TypeError

section \<open>Arrays\<close>

text \<open>
  A typed array has a fixed length, starts filled with zeros, and ignores a write
  outside its range; \<open>xs[i := v]\<close> is that write. A Uint16Array stores the value
  reduced modulo \<open>2 ^ 16\<close>, and stores 0 for \<open>undefined\<close>, which is what reading
  a plain array beyond its end gives.
\<close>

definition newFloat32Array :: "nat \<Rightarrow> real list" where
  "newFloat32Array n = replicate n 0"

definition newUint16Array :: "nat \<Rightarrow> 16 word list" where
  "newUint16Array n = replicate n 0"

definition jsGet :: "'a list \<Rightarrow> nat \<Rightarrow> 'a option" where
  "jsGet xs i = (if i < length xs then Some (xs ! i) else None)"

definition toUint16 :: "int option \<Rightarrow> 16 word" where
  "toUint16 v = (case v of None \<Rightarrow> 0 | Some i \<Rightarrow> word_of_int i)"

text \<open>\<open>writeAt arr base vals\<close> is \<open>arr[base+0] = vals[0]; arr[base+1] = vals[1]; ...\<close>.\<close>

fun writeAt :: "'a list \<Rightarrow> nat \<Rightarrow> 'a list \<Rightarrow> 'a list" where
  "writeAt arr base [] = arr"
| "writeAt arr base (v # vs) = writeAt (arr[base := v]) (Suc base) vs"

text \<open>
  The per-vertex loops \<open>for (i = 0; i < len; ++i)\<close> that write \<open>stride\<close> components
  of item \<open>i\<close> at \<open>i*stride + 0, ...\<close>.
\<close>

definition fillPerVertex :: "nat \<Rightarrow> ('a \<Rightarrow> real list) \<Rightarrow> 'a list \<Rightarrow> real list \<Rightarrow> real list" where
  "fillPerVertex stride comps vs arr =
     fold (\<lambda>i a. writeAt a (i * stride) (comps (vs ! i))) [0..<length vs] arr"

text \<open>
  The index loop \<open>for (j = 0; j < indexCount; j += 3)\<close> of the renderer, which writes
  each triangle with its second and third index exchanged.
\<close>

function rewindLoop :: "int list \<Rightarrow> nat \<Rightarrow> nat \<Rightarrow> 16 word list \<Rightarrow> 16 word list" where
  "rewindLoop Indices indexCount j indexArray =
     (if j < indexCount then
        rewindLoop Indices indexCount (j + 3)
          (indexArray[j + 0 := toUint16 (jsGet Indices (j + 0)),
                      j + 1 := toUint16 (jsGet Indices (j + 2)),
                      j + 2 := toUint16 (jsGet Indices (j + 1))])
      else indexArray)"
  by pat_completeness auto
termination
  by (relation "measure (\<lambda>(Indices, indexCount, j, indexArray). indexCount - j)") auto

declare rewindLoop.simps [simp del]

section \<open>The WebGL context\<close>

text \<open>
  The context is the platform, not code of the library. Its documented behaviour is
  modelled as far as the renderer uses it: \<open>createBuffer\<close> hands out a fresh handle,
  \<open>bindBuffer\<close> sets the binding of a target, \<open>bufferData\<close> gives the bound buffer
  new contents, \<open>bufferSubData\<close> overwrites the bound buffer from offset 0 when the
  data fits (and changes nothing otherwise), and the calls that set up and issue a draw
  are appended to the trace \<open>calls\<close>.
\<close>

datatype target = ARRAY_BUFFER | ELEMENT_ARRAY_BUFFER

datatype usage = STATIC_DRAW | DYNAMIC_DRAW

datatype payload = FloatData "real list" | ShortData "16 word list"

datatype 'm glcall =
    EnableVertexAttribArray nat
  | DisableVertexAttribArray nat
  | VertexAttribPointer nat nat "nat option"
  | UniformMatrix4fv nat 'm
  | Uniform4fv "nat option" "real list"
  | Uniform3f nat real real real
  | Uniform4f "nat option" real real real real
  | DrawElements nat "nat option"

text \<open>
  \<open>VertexAttribPointer index size b\<close> records the array buffer \<open>b\<close> bound at the
  call; \<open>DrawElements count b\<close> is \<open>drawElements(TRIANGLES, count, UNSIGNED_SHORT, 0)\<close>
  with the element array buffer \<open>b\<close> bound at the call.
\<close>

record 'm GL =
  nextBuffer :: nat
  arrayBinding :: "nat option"
  elementBinding :: "nat option"
  bufferStore :: "(nat \<times> payload) list"
  calls :: "'m glcall list"

definition createBuffer :: "'m GL \<Rightarrow> nat \<times> 'm GL" where
  "createBuffer g = (nextBuffer g, g\<lparr>nextBuffer := Suc (nextBuffer g)\<rparr>)"

definition binding :: "target \<Rightarrow> 'm GL \<Rightarrow> nat option" where
  "binding t g = (case t of ARRAY_BUFFER \<Rightarrow> arrayBinding g | ELEMENT_ARRAY_BUFFER \<Rightarrow> elementBinding g)"

definition bindBuffer :: "target \<Rightarrow> nat option \<Rightarrow> 'm GL \<Rightarrow> 'm GL" where
  "bindBuffer t h g =
     (case t of ARRAY_BUFFER \<Rightarrow> g\<lparr>arrayBinding := h\<rparr>
              | ELEMENT_ARRAY_BUFFER \<Rightarrow> g\<lparr>elementBinding := h\<rparr>)"

definition bufferContents :: "'m GL \<Rightarrow> nat \<Rightarrow> payload option" where
  "bufferContents g h = map_of (bufferStore g) h"

definition bufferData :: "target \<Rightarrow> payload \<Rightarrow> usage \<Rightarrow> 'm GL \<Rightarrow> 'm GL" where
  "bufferData t d u g =
     (case binding t g of
        None \<Rightarrow> g
      | Some h \<Rightarrow> g\<lparr>bufferStore := (h, d) # bufferStore g\<rparr>)"

definition bufferSubData :: "target \<Rightarrow> real list \<Rightarrow> 'm GL \<Rightarrow> 'm GL" where
  "bufferSubData t d g =
     (case binding t g of
        None \<Rightarrow> g
      | Some h \<Rightarrow>
          (case bufferContents g h of
             Some (FloatData old) \<Rightarrow>
               (if length d \<le> length old
                then g\<lparr>bufferStore := (h, FloatData (d @ drop (length d) old)) # bufferStore g\<rparr>
                else g)
           | _ \<Rightarrow> g))"

definition glCall :: "'m glcall \<Rightarrow> 'm GL \<Rightarrow> 'm GL" where
  "glCall c g = g\<lparr>calls := calls g @ [c]\<rparr>"

definition vertexAttribPointer :: "nat \<Rightarrow> nat \<Rightarrow> 'm GL \<Rightarrow> 'm GL" where
  "vertexAttribPointer index sz g = glCall (VertexAttribPointer index sz (arrayBinding g)) g"

definition drawElements :: "nat \<Rightarrow> 'm GL \<Rightarrow> 'm GL" where
  "drawElements count g = glCall (DrawElements count (elementBinding g)) g"

text \<open>The idiom \<open>h = gl.createBuffer(); gl.bindBuffer(t, h); gl.bufferData(t, d, u)\<close>.\<close>

definition createAndFill :: "target \<Rightarrow> payload \<Rightarrow> usage \<Rightarrow> 'm GL \<Rightarrow> nat \<times> 'm GL" where
  "createAndFill t d u g =
     (let c = createBuffer g
      in (fst c, bufferData t d u (bindBuffer t (Some (fst c)) (snd c))))"

section \<open>The renderer (renderer.js)\<close>

record Vertex3D =
  Pos :: Vect3d
  Normal :: Vect3d
  Color :: int
  TCoords :: Vect2d
  TCoords2 :: Vect2d

record RendererNativeArray =
  positionBuffer :: nat
  positionsArray :: "real list"
  texcoordsBuffer :: nat
  texcoordsBuffer2 :: nat
  normalBuffer :: nat
  tangentBuffer :: "nat option"
  binormalBuffer :: "nat option"
  colorBuffer :: nat
  colorArray :: "real list"
  indexBuffer :: nat
  indexCount :: nat
  vertexCount :: nat

record MeshBuffer =
  Vertices :: "Vertex3D list"
  Indices :: "int list"
  Tangents :: "Vect3d list option"
  Binormals :: "Vect3d list option"
  RendererNativeArray :: "RendererNativeArray option"
  OnlyPositionsChanged :: bool
  OnlyUpdateBufferIfPossible :: bool

record Light =
  Position :: Vect3d
  Color :: ColorF
  Attenuation :: real
  Radius :: real
  IsDirectional :: bool
  Direction :: "Vect3d option"

record Program =
  locWorldViewProj :: "nat option"
  locNormalMatrix :: "nat option"
  locModelViewMatrix :: "nat option"
  locModelWorldMatrix :: "nat option"
  locLightPositions :: "nat option"
  locLightColors :: "nat option"
  locDirectionalLight :: "nat option"
  locDirectionalLightColor :: "nat option"

record 'm Renderer =
  gl :: "'m GL option"
  textureWasLoadedFlag :: bool
  Projection :: 'm
  View :: 'm
  World :: 'm
  AmbientLight :: ColorF
  Lights :: "Light list"
  DirectionalLight :: "Light option"
  currentGLProgram :: "Program option"

definition getAndResetTextureWasLoadedFlag :: "'m Renderer \<Rightarrow> bool \<times> 'm Renderer" where
  "getAndResetTextureWasLoadedFlag r = (textureWasLoadedFlag r, r\<lparr>textureWasLoadedFlag := False\<rparr>)"

definition clearDynamicLights :: "'m Renderer \<Rightarrow> 'm Renderer" where
  "clearDynamicLights r = r\<lparr>Lights := [], DirectionalLight := None\<rparr>"

definition addDynamicLight :: "Light \<Rightarrow> 'm Renderer \<Rightarrow> 'm Renderer" where
  "addDynamicLight l r = r\<lparr>Lights := Lights r @ [l]\<rparr>"

definition setDirectionalLight :: "Light \<Rightarrow> 'm Renderer \<Rightarrow> 'm Renderer" where
  "setDirectionalLight l r = r\<lparr>DirectionalLight := Some l\<rparr>"

definition getProjection :: "'m Renderer \<Rightarrow> 'm" where
  "getProjection r = Renderer.Projection r"

definition getView :: "'m Renderer \<Rightarrow> 'm" where
  "getView r = View r"

subsection \<open>Per-vertex components\<close>

definition posComps :: "Vertex3D \<Rightarrow> real list" where
  "posComps v = [Vect3d.X (Pos v), Vect3d.Y (Pos v), Z (Pos v)]"

definition normalComps :: "Vertex3D \<Rightarrow> real list" where
  "normalComps v = [Vect3d.X (Normal v), Vect3d.Y (Normal v), Z (Normal v)]"

definition tcoordComps :: "Vertex3D \<Rightarrow> real list" where
  "tcoordComps v = [Vect2d.X (TCoords v), Vect2d.Y (TCoords v)]"

definition tcoord2Comps :: "Vertex3D \<Rightarrow> real list" where
  "tcoord2Comps v = [Vect2d.X (TCoords2 v), Vect2d.Y (TCoords2 v)]"

definition colorComps :: "'m Math_ops \<Rightarrow> Vertex3D \<Rightarrow> real list" where
  "colorComps M v =
     [getRed M (Vertex3D.Color v) / 255, getGreen M (Vertex3D.Color v) / 255,
      getBlue M (Vertex3D.Color v) / 255, getAlpha M (Vertex3D.Color v) / 255]"

definition vectComps :: "Vect3d \<Rightarrow> real list" where
  "vectComps t = [Vect3d.X t, Vect3d.Y t, Z t]"

text \<open>
  The tangent and binormal arrays are filled only when the buffer has both lists; the
  loop reads \<open>Tangents[i]\<close> and \<open>Binormals[i]\<close> for every vertex index and raises a
  TypeError at the first one that is missing.
\<close>

definition tangentArrays :: "MeshBuffer \<Rightarrow> nat \<Rightarrow> error + (real list \<times> real list) option" where
  "tangentArrays buf len =
     (case Tangents buf of
        None \<Rightarrow> Inr None
      | Some ts \<Rightarrow>
          (case Binormals buf of
             None \<Rightarrow> Inr None
           | Some bs \<Rightarrow>
               (if len \<le> length ts \<and> len \<le> length bs
                then Inr (Some (fillPerVertex 3 vectComps (take len ts) (newFloat32Array (len * 3)),
                                fillPerVertex 3 vectComps (take len bs) (newFloat32Array (len * 3))))
                else Inl TypeError)))"

text \<open>The buffers for which that loop finds every element it reads.\<close>

definition tangentsCoverVertices :: "MeshBuffer \<Rightarrow> bool" where
  "tangentsCoverVertices buf =
     (case Tangents buf of
        None \<Rightarrow> True
      | Some ts \<Rightarrow>
          (case Binormals buf of
             None \<Rightarrow> True
           | Some bs \<Rightarrow> length (Vertices buf) \<le> length ts \<and> length (Vertices buf) \<le> length bs))"

subsection \<open>Creating and updating the device resource of a mesh buffer\<close>

text \<open>
  The part of \<open>createRendererNativeArray\<close> from \<open>// create render arrays\<close> on: one
  device buffer per array, in the order positions, texture coordinates, second texture
  coordinates, normals, tangents and binormals (when both are there), colours, indices,
  and the object that records them.
\<close>

definition uploadNativeArray ::
  "real list \<Rightarrow> real list \<Rightarrow> real list \<Rightarrow> real list \<Rightarrow> (real list \<times> real list) option
     \<Rightarrow> real list \<Rightarrow> 16 word list \<Rightarrow> nat \<Rightarrow> nat \<Rightarrow> 'm GL \<Rightarrow> RendererNativeArray \<times> 'm GL" where
  "uploadNativeArray positions tcoords tcoords2 normals tb colors indices icount len g =
     (let p = createAndFill ARRAY_BUFFER (FloatData positions) DYNAMIC_DRAW g;
          t1 = createAndFill ARRAY_BUFFER (FloatData tcoords) STATIC_DRAW (snd p);
          t2 = createAndFill ARRAY_BUFFER (FloatData tcoords2) STATIC_DRAW (snd t1);
          n = createAndFill ARRAY_BUFFER (FloatData normals) STATIC_DRAW (snd t2);
          ta = (case tb of
                  None \<Rightarrow> (None, snd n)
                | Some arrs \<Rightarrow>
                    (let a = createAndFill ARRAY_BUFFER (FloatData (fst arrs)) STATIC_DRAW (snd n)
                     in (Some (fst a), snd a)));
          bi = (case tb of
                  None \<Rightarrow> (None, snd ta)
                | Some arrs \<Rightarrow>
                    (let a = createAndFill ARRAY_BUFFER (FloatData (snd arrs)) STATIC_DRAW (snd ta)
                     in (Some (fst a), snd a)));
          g1 = bindBuffer ARRAY_BUFFER None (snd bi);
          c = createAndFill ARRAY_BUFFER (FloatData colors) STATIC_DRAW g1;
          g2 = bindBuffer ARRAY_BUFFER None (snd c);
          ix = createAndFill ELEMENT_ARRAY_BUFFER (ShortData indices) STATIC_DRAW g2;
          g3 = bindBuffer ELEMENT_ARRAY_BUFFER None (snd ix);
          obj = \<lparr>positionBuffer = fst p, positionsArray = positions,
                 texcoordsBuffer = fst t1, texcoordsBuffer2 = fst t2,
                 normalBuffer = fst n, tangentBuffer = fst ta, binormalBuffer = fst bi,
                 colorBuffer = fst c, colorArray = colors,
                 indexBuffer = fst ix, indexCount = icount, vertexCount = len\<rparr>
      in (obj, g3))"

definition createRendererNativeArray ::
  "'m Math_ops \<Rightarrow> MeshBuffer \<Rightarrow> 'm GL \<Rightarrow> error + (MeshBuffer \<times> 'm GL)" where
  "createRendererNativeArray M buf g =
     (case RendererNativeArray buf of
        Some existing \<Rightarrow> Inr (buf, g)
      | None \<Rightarrow>
          (let len = length (Vertices buf);
               positionsArray = fillPerVertex 3 posComps (Vertices buf) (newFloat32Array (len * 3));
               normalsArray = fillPerVertex 3 normalComps (Vertices buf) (newFloat32Array (len * 3));
               tcoordsArray = fillPerVertex 2 tcoordComps (Vertices buf) (newFloat32Array (len * 2));
               tcoordsArray2 = fillPerVertex 2 tcoord2Comps (Vertices buf) (newFloat32Array (len * 2));
               colorArray = fillPerVertex 4 (colorComps M) (Vertices buf) (newFloat32Array (len * 4))
           in case tangentArrays buf len of
                Inl e \<Rightarrow> Inl e
              | Inr tb \<Rightarrow>
                  (let indexCount = length (Indices buf);
                       indexArray = rewindLoop (Indices buf) indexCount 0 (newUint16Array indexCount);
                       u = uploadNativeArray positionsArray tcoordsArray tcoordsArray2 normalsArray
                             tb colorArray indexArray indexCount len g
                   in Inr (buf\<lparr>RendererNativeArray := Some (fst u),
                                OnlyPositionsChanged := False,
                                OnlyUpdateBufferIfPossible := False\<rparr>, snd u))))"

text \<open>
  \<open>updateRendererNativeArray\<close> reads \<open>buf.RendererNativeArray.vertexCount\<close> before it
  tests the resource for null, so a buffer without a resource raises there; the renderer
  calls it only for a buffer that has one.
\<close>

definition updateRendererNativeArray ::
  "'m Math_ops \<Rightarrow> MeshBuffer \<Rightarrow> 'm GL \<Rightarrow> error + (MeshBuffer \<times> 'm GL)" where
  "updateRendererNativeArray M buf g =
     (if length (Vertices buf) = 0 \<or> length (Indices buf) = 0 then Inr (buf, g)
      else
        (case RendererNativeArray buf of
           None \<Rightarrow> Inl TypeError
         | Some rna \<Rightarrow>
             (if vertexCount rna < length (Vertices buf) \<or> indexCount rna < length (Indices buf)
              then createRendererNativeArray M (buf\<lparr>RendererNativeArray := None\<rparr>) g
              else
                (let positionsArray' = fillPerVertex 3 posComps (Vertices buf) (positionsArray rna);
                     colorArray' = fillPerVertex 4 (colorComps M) (Vertices buf) (colorArray rna);
                     g1 = bufferSubData ARRAY_BUFFER positionsArray'
                            (bindBuffer ARRAY_BUFFER (Some (positionBuffer rna)) g);
                     g2 = bufferSubData ARRAY_BUFFER colorArray'
                            (bindBuffer ARRAY_BUFFER (Some (colorBuffer rna)) g1);
                     ix = (if indexCount rna < length (Indices buf)
                           then (let indexCount' = length (Indices buf);
                                     indexArray = rewindLoop (Indices buf) indexCount' 0
                                                    (newUint16Array indexCount');
                                     a = createAndFill ELEMENT_ARRAY_BUFFER (ShortData indexArray)
                                           STATIC_DRAW g2
                                 in (fst a, bindBuffer ELEMENT_ARRAY_BUFFER None (snd a)))
                           else (indexBuffer rna, g2))
                 in Inr (buf\<lparr>RendererNativeArray :=
                               Some (rna\<lparr>positionsArray := positionsArray',
                                         colorArray := colorArray',
                                         indexBuffer := fst ix,
                                         indexCount := length (Indices buf),
                                         vertexCount := length (Vertices buf)\<rparr>)\<rparr>,
                         snd ix)))))"

definition updatePositionsInRendererNativeArray ::
  "MeshBuffer \<Rightarrow> 'm GL \<Rightarrow> MeshBuffer \<times> 'm GL" where
  "updatePositionsInRendererNativeArray buf g =
     (case RendererNativeArray buf of
        None \<Rightarrow> (buf, g)
      | Some rna \<Rightarrow>
          (let positionsArray' = fillPerVertex 3 posComps (Vertices buf) (positionsArray rna);
               g1 = bufferSubData ARRAY_BUFFER positionsArray'
                      (bindBuffer ARRAY_BUFFER (Some (positionBuffer rna)) g)
           in (buf\<lparr>RendererNativeArray := Some (rna\<lparr>positionsArray := positionsArray'\<rparr>)\<rparr>, g1)))"

subsection \<open>Reading a device resource\<close>

text \<open>
  The handles of a resource, and what the context holds for them: positions, the two
  texture coordinate sets, normals, tangents and binormals when present, colours, and
  indices, in this order.
\<close>

definition handles :: "RendererNativeArray \<Rightarrow> nat list" where
  "handles b =
     [positionBuffer b, texcoordsBuffer b, texcoordsBuffer2 b, normalBuffer b] @
     (case tangentBuffer b of None \<Rightarrow> [] | Some h \<Rightarrow> [h]) @
     (case binormalBuffer b of None \<Rightarrow> [] | Some h \<Rightarrow> [h]) @
     [colorBuffer b, indexBuffer b]"

definition deviceContents :: "'m GL \<Rightarrow> RendererNativeArray \<Rightarrow> payload option list" where
  "deviceContents g b = map (bufferContents g) (handles b)"

text \<open>
  The arrays of a buffer as concatenations of the per-vertex components, the tangent and
  binormal arrays when the buffer has both lists, and the index list with the second
  and third index of every triangle exchanged: what a from-scratch creation uploads.
\<close>

definition tangentData :: "MeshBuffer \<Rightarrow> (real list \<times> real list) option" where
  "tangentData buf =
     (case Tangents buf of
        None \<Rightarrow> None
      | Some ts \<Rightarrow>
          (case Binormals buf of
             None \<Rightarrow> None
           | Some bs \<Rightarrow>
               Some (concat (map vectComps (take (length (Vertices buf)) ts)),
                     concat (map vectComps (take (length (Vertices buf)) bs)))))"

definition rewoundIndices :: "MeshBuffer \<Rightarrow> 16 word list" where
  "rewoundIndices buf =
     rewindLoop (Indices buf) (length (Indices buf)) 0 (newUint16Array (length (Indices buf)))"

definition freshResource :: "'m Math_ops \<Rightarrow> MeshBuffer \<Rightarrow> 'm GL \<Rightarrow> RendererNativeArray \<times> 'm GL" where
  "freshResource M buf g =
     uploadNativeArray (concat (map posComps (Vertices buf))) (concat (map tcoordComps (Vertices buf)))
       (concat (map tcoord2Comps (Vertices buf))) (concat (map normalComps (Vertices buf)))
       (tangentData buf) (concat (map (colorComps M) (Vertices buf))) (rewoundIndices buf)
       (length (Indices buf)) (length (Vertices buf)) g"

subsection \<open>Light constants\<close>

text \<open>
  The quotient \<open>1.0 / (l.Radius * l.Radius)\<close> is the ideal one; JavaScript gives
  Infinity for a zero radius, a case the model does not describe.
\<close>

definition lightAttenuation :: "bool \<Rightarrow> Light \<Rightarrow> real" where
  "lightAttenuation useOldNormalMappingAttenuationCalculation l =
     (if useOldNormalMappingAttenuationCalculation then 1 / (Radius l * Radius l)
      else Attenuation l)"

text \<open>One pass of the loop \<open>for (i = 0; i < 4; ++i)\<close> over the two arrays.\<close>

definition lightSlot ::
  "'m Math_ops \<Rightarrow> 'm \<Rightarrow> bool \<Rightarrow> Light list \<Rightarrow> nat \<Rightarrow> real list \<times> real list \<Rightarrow> real list \<times> real list" where
  "lightSlot M mat useOld lights i arrs =
     (let idx = i * 4
      in if i < length lights then
           (let l = lights ! i;
                vt = getTransformedVect M mat (Position l)
            in ((fst arrs)[idx := Vect3d.X vt, idx + 1 := Vect3d.Y vt, idx + 2 := Z vt,
                           idx + 3 := lightAttenuation useOld l],
                (snd arrs)[idx := R (Light.Color l), idx + 1 := G (Light.Color l),
                           idx + 2 := B (Light.Color l), idx + 3 := 1]))
         else
           ((fst arrs)[idx := 1, idx + 1 := 0, idx + 2 := 0, idx + 3 := 1],
            (snd arrs)[idx := 0, idx + 1 := 0, idx + 2 := 0, idx + 3 := 1]))"

definition lightMatrix :: "'m Math_ops \<Rightarrow> bool \<Rightarrow> 'm Renderer \<Rightarrow> 'm" where
  "lightMatrix M useWorldSpacePositionsForLights r =
     (if \<not> useWorldSpacePositionsForLights \<and> (length (Lights r) > 0 \<or> DirectionalLight r \<noteq> None)
      then getInverse M (World r) (identity M)
      else identity M)"

text \<open>The position array and the colour array as they are when they are uploaded.\<close>

definition lightArrays :: "'m Math_ops \<Rightarrow> bool \<Rightarrow> bool \<Rightarrow> 'm Renderer \<Rightarrow> real list \<times> real list" where
  "lightArrays M useWorld useOld r =
     (let arrs = fold (lightSlot M (lightMatrix M useWorld r) useOld (Lights r)) [0, 1, 2, 3]
                   (newFloat32Array (4 * 4), newFloat32Array (5 * 4))
      in (fst arrs,
          (snd arrs)[16 := R (Renderer.AmbientLight r), 17 := G (Renderer.AmbientLight r),
                     18 := B (Renderer.AmbientLight r), 19 := 1]))"

text \<open>
  The four components that a slot of the position array and of the colour array is
  meant to carry: position and attenuation, and colour and 1, of the light with the
  index of the slot, or the dark light \<open>(1, 0, 0, 1)\<close>, \<open>(0, 0, 0, 1)\<close> of the
  comment \<open>add a dark light, since the shader expects 4 lights\<close> when the list has
  no light with that index.
\<close>

definition packedPosition :: "'m Math_ops \<Rightarrow> 'm \<Rightarrow> bool \<Rightarrow> Light list \<Rightarrow> nat \<Rightarrow> real list" where
  "packedPosition M mat useOld lights i =
     (if i < length lights
      then [Vect3d.X (getTransformedVect M mat (Position (lights ! i))),
            Vect3d.Y (getTransformedVect M mat (Position (lights ! i))),
            Z (getTransformedVect M mat (Position (lights ! i))),
            lightAttenuation useOld (lights ! i)]
      else [1, 0, 0, 1])"

definition packedColor :: "Light list \<Rightarrow> nat \<Rightarrow> real list" where
  "packedColor lights i =
     (if i < length lights
      then [R (Light.Color (lights ! i)), G (Light.Color (lights ! i)),
            B (Light.Color (lights ! i)), 1]
      else [0, 0, 0, 1])"

text \<open>
  The uniform uploads of \<open>setDynamicLightsIntoConstants\<close>, in the order they are
  issued: the position array, the colour array, and the direction and colour of the
  directional light when the program has a location for the direction.
\<close>

definition lightCalls :: "'m Math_ops \<Rightarrow> Program \<Rightarrow> bool \<Rightarrow> bool \<Rightarrow> 'm Renderer \<Rightarrow> 'm glcall list" where
  "lightCalls M program useWorld useOld r =
     (let arrs = lightArrays M useWorld useOld r
      in [Uniform4fv (locLightPositions program) (fst arrs),
          Uniform4fv (locLightColors program) (snd arrs)] @
         (case locDirectionalLight program of
            None \<Rightarrow> []
          | Some loc \<Rightarrow>
              (let dir0 = (case DirectionalLight r of
                             None \<Rightarrow> \<lparr>X = 1, Y = 0, Z = 0\<rparr>
                           | Some dirlight \<Rightarrow>
                               (case Direction dirlight of
                                  None \<Rightarrow> \<lparr>X = 1, Y = 0, Z = 0\<rparr>
                                | Some v \<Rightarrow> v));
                   dir = normalize M (rotateVect M (lightMatrix M useWorld r)
                                        (multiplyThisWithScal M dir0 (- 1)))
               in [Uniform3f loc (Vect3d.X dir) (Vect3d.Y dir) (Z dir),
                   (case DirectionalLight r of
                      Some dirlight \<Rightarrow>
                        Uniform4f (locDirectionalLightColor program)
                          (R (Light.Color dirlight)) (G (Light.Color dirlight))
                          (B (Light.Color dirlight)) 1
                    | None \<Rightarrow> Uniform4f (locDirectionalLightColor program) 0 0 0 1)])))"

definition setDynamicLightsIntoConstants ::
  "'m Math_ops \<Rightarrow> Program \<Rightarrow> bool \<Rightarrow> bool \<Rightarrow> 'm Renderer \<Rightarrow> 'm GL \<Rightarrow> 'm GL" where
  "setDynamicLightsIntoConstants M program useWorld useOld r g =
     fold glCall (lightCalls M program useWorld useOld r) g"

subsection \<open>Drawing\<close>

text \<open>The idiom \<open>if (loc != null) gl.uniformMatrix4fv(loc, false, m)\<close>.\<close>

definition uniformMatrix4fv :: "nat option \<Rightarrow> 'm \<Rightarrow> 'm GL \<Rightarrow> 'm GL" where
  "uniformMatrix4fv loc m g = (case loc of None \<Rightarrow> g | Some l \<Rightarrow> glCall (UniformMatrix4fv l m) g)"

text \<open>
  \<open>drawWebGlStaticGeometry\<close> in its three parts: the vertex attributes and the index
  buffer are bound; with the current program, the matrices and the light values are
  uploaded; the draw is issued and the optional attributes are disabled again. Reading
  a location of a program that is null raises a TypeError.
\<close>

definition bindAttributes :: "RendererNativeArray \<Rightarrow> 'm GL \<Rightarrow> 'm GL" where
  "bindAttributes b g =
     (let withTangentsAndBinormals = (tangentBuffer b \<noteq> None \<and> binormalBuffer b \<noteq> None);
          g1 = fold glCall (map EnableVertexAttribArray [0, 1, 2, 3, 4]) g;
          g2 = vertexAttribPointer 0 3 (bindBuffer ARRAY_BUFFER (Some (positionBuffer b)) g1);
          g3 = vertexAttribPointer 1 2 (bindBuffer ARRAY_BUFFER (Some (texcoordsBuffer b)) g2);
          g4 = vertexAttribPointer 2 2 (bindBuffer ARRAY_BUFFER (Some (texcoordsBuffer2 b)) g3);
          g5 = vertexAttribPointer 3 3 (bindBuffer ARRAY_BUFFER (Some (normalBuffer b)) g4);
          g6 = vertexAttribPointer 4 4 (bindBuffer ARRAY_BUFFER (Some (colorBuffer b)) g5);
          g7 = (if withTangentsAndBinormals then
                  vertexAttribPointer 6 3 (bindBuffer ARRAY_BUFFER (binormalBuffer b)
                    (vertexAttribPointer 5 3 (bindBuffer ARRAY_BUFFER (tangentBuffer b)
                       (fold glCall (map EnableVertexAttribArray [5, 6]) g6))))
                else g6)
      in bindBuffer ELEMENT_ARRAY_BUFFER (Some (indexBuffer b)) g7)"

definition setUniforms ::
  "'m Math_ops \<Rightarrow> Program \<Rightarrow> bool \<Rightarrow> 'm Renderer \<Rightarrow> 'm GL \<Rightarrow> 'm GL" where
  "setUniforms M program withTangentsAndBinormals r g =
     (let viewWorld = multiply M (multiply M (identity M) (View r)) (World r);
          g9 = uniformMatrix4fv (locWorldViewProj program)
                 (multiply M (multiply M (Renderer.Projection r) (View r)) (World r)) g;
          g10 = uniformMatrix4fv (locNormalMatrix program)
                  (getTransposed M (makeInverse M viewWorld)) g9;
          g11 = uniformMatrix4fv (locModelViewMatrix program) viewWorld g10;
          g12 = uniformMatrix4fv (locModelWorldMatrix program) (getTransposed M (World r)) g11
      in if locLightPositions program \<noteq> None
         then setDynamicLightsIntoConstants M program withTangentsAndBinormals
                withTangentsAndBinormals r g12
         else g12)"

definition drawWebGlStaticGeometry ::
  "'m Math_ops \<Rightarrow> RendererNativeArray \<Rightarrow> nat option \<Rightarrow> 'm Renderer \<Rightarrow> 'm GL \<Rightarrow> error + 'm GL" where
  "drawWebGlStaticGeometry M b indexCountToUse r g =
     (let withTangentsAndBinormals = (tangentBuffer b \<noteq> None \<and> binormalBuffer b \<noteq> None);
          g8 = bindAttributes b g
      in case currentGLProgram r of
           None \<Rightarrow> Inl TypeError
         | Some program \<Rightarrow>
             (let g13 = setUniforms M program withTangentsAndBinormals r g8;
                  g14 = drawElements (case indexCountToUse of None \<Rightarrow> indexCount b | Some c \<Rightarrow> c) g13
              in Inr (if withTangentsAndBinormals
                      then fold glCall (map DisableVertexAttribArray [5, 6]) g14
                      else g14)))"

text \<open>
  \<open>drawMeshBuffer\<close> of a buffer that is not null. An exception leaves the function;
  the result is then the error.
\<close>

definition drawMeshBuffer ::
  "'m Math_ops \<Rightarrow> MeshBuffer \<Rightarrow> nat option \<Rightarrow> 'm Renderer \<Rightarrow> error + (MeshBuffer \<times> 'm Renderer)" where
  "drawMeshBuffer M buf indexCountToUse r =
     (case gl r of
        None \<Rightarrow> Inr (buf, r)
      | Some g \<Rightarrow>
          (case (if RendererNativeArray buf = None then createRendererNativeArray M buf g
                 else if OnlyUpdateBufferIfPossible buf then updateRendererNativeArray M buf g
                 else if OnlyPositionsChanged buf then Inr (updatePositionsInRendererNativeArray buf g)
                 else Inr (buf, g)) of
             Inl e \<Rightarrow> Inl e
           | Inr bg \<Rightarrow>
               (let buf1 = (fst bg)\<lparr>OnlyPositionsChanged := False, OnlyUpdateBufferIfPossible := False\<rparr>
                in case RendererNativeArray buf1 of
                     None \<Rightarrow> Inl TypeError
                   | Some b \<Rightarrow>
                       (case drawWebGlStaticGeometry M b indexCountToUse r (snd bg) of
                          Inl e \<Rightarrow> Inl e
                        | Inr g' \<Rightarrow> Inr (buf1, r\<lparr>gl := Some g'\<rparr>)))))"

text \<open>The triangle-list draws in a trace, each with its index count.\<close>

fun drawCounts :: "'m glcall list \<Rightarrow> nat list" where
  "drawCounts [] = []"
| "drawCounts (DrawElements c b # cs) = c # drawCounts cs"
| "drawCounts (other # cs) = drawCounts cs"

text \<open>The array uploads \<open>uniform4fv\<close> in a trace, each with its location and its array.\<close>

fun uniform4fvCalls :: "'m glcall list \<Rightarrow> (nat option \<times> real list) list" where
  "uniform4fvCalls [] = []"
| "uniform4fvCalls (Uniform4fv loc arr # cs) = (loc, arr) # uniform4fvCalls cs"
| "uniform4fvCalls (other # cs) = uniform4fvCalls cs"

text \<open>Slot \<open>i\<close> of an array of four-component slots.\<close>

definition slot:: "nat \<Rightarrow> real list \<Rightarrow> real list" where
  "slot i arr = take 4 (drop (4 * i) arr)"

section \<open>The scene (flacescene.js)\<close>

type_synonym nodeid = nat
type_synonym selector = nat

text \<open>
  Scene nodes are JavaScript objects reached through references; a reference is a
  \<open>nodeid\<close>, and the scene carries the heap \<open>nodes\<close> of the node fields that the scene
  code reads or writes: the parent back-link, the child list and the collision selector.
  The node classes are not part of the source; what the scene calls on a node is taken
  as the parameter record \<open>Node_ops\<close>: its absolute position, its \<open>render\<close> method
  (under the scene's current render mode, acting on the renderer), and the test of its
  transformed bounding box against the culling box of a frustum and camera position.
\<close>

record SceneNode =
  Parent :: "nodeid option"
  Children :: "nodeid list"
  Selector :: "selector option"

record 'm Node_ops =
  getAbsolutePosition :: "nodeid \<Rightarrow> Vect3d"
  render :: "int \<Rightarrow> nodeid \<Rightarrow> 'm Renderer \<Rightarrow> 'm Renderer"
  intersectsWithBox :: "'m \<Rightarrow> Vect3d \<Rightarrow> nodeid \<Rightarrow> bool"

record 'm CameraSceneNode =
  CameraId :: nodeid
  Projection :: 'm
  ViewMatrix :: 'm

record DeletionEntry =
  node :: nodeid
  timeAfterToDelete :: int

record 'm Scene =
  nodes :: "nodeid \<Rightarrow> SceneNode"
  CollisionWorld :: "selector list option"
  AmbientLight :: ColorF
  StartTime :: int
  ActiveCamera :: "'m CameraSceneNode option"
  ForceRedrawThisFrame :: bool
  LastViewProj :: 'm
  TheSkyBoxSceneNode :: "nodeid option"
  SkyBoxSceneNode :: "nodeid option"
  RedrawMode :: int
  CurrentRenderMode :: int
  SceneNodesToRender :: "nodeid list"
  SceneNodesToRenderTransparent :: "nodeid list"
  LightsToRender :: "nodeid list"
  Overlay2DToRender :: "nodeid list"
  NodeCountRenderedLastTime :: nat
  SkinnedMeshesRenderedLastTime :: nat
  UseCulling :: bool
  CurrentCameraFrustrum :: "'m option"
  DeletionList :: "DeletionEntry list"

text \<open>
  \<open>SkyBoxSceneNode\<close> is the property that \<open>registerNodeForRendering\<close> writes and
  \<open>drawAll\<close> reads; \<open>init\<close> and \<open>doAnimate\<close> write the differently named
  \<open>TheSkyBoxSceneNode\<close>. Both are properties of the object and both are fields here.
  \<open>CurrentCameraFrustrum\<close> keeps the matrix the frustum is set from.
\<close>

subsection \<open>Public constants, as the file assigns them\<close>

definition REDRAW_WHEN_CAM_MOVED :: int where
  "REDRAW_WHEN_CAM_MOVED = 2"

definition REDRAW_WHEN_SCENE_CHANGED :: int where
  "REDRAW_WHEN_SCENE_CHANGED = 1"

definition REDRAW_EVERY_FRAME :: int where
  "REDRAW_EVERY_FRAME = 2"

definition RENDER_MODE_SKYBOX :: int where
  "RENDER_MODE_SKYBOX = 1"

definition RENDER_MODE_DEFAULT :: int where
  "RENDER_MODE_DEFAULT = 0"

definition RENDER_MODE_LIGHTS :: int where
  "RENDER_MODE_LIGHTS = 2"

definition RENDER_MODE_CAMERA :: int where
  "RENDER_MODE_CAMERA = 3"

definition RENDER_MODE_TRANSPARENT :: int where
  "RENDER_MODE_TRANSPARENT = 4"

definition RENDER_MODE_2DOVERLAY :: int where
  "RENDER_MODE_2DOVERLAY = 5"

subsection \<open>Setters\<close>

definition setRedrawMode :: "int \<Rightarrow> 'm Scene \<Rightarrow> 'm Scene" where
  "setRedrawMode mode s = s\<lparr>RedrawMode := mode\<rparr>"

definition setActiveCamera :: "'m CameraSceneNode option \<Rightarrow> 'm Scene \<Rightarrow> 'm Scene" where
  "setActiveCamera activeCamera s = s\<lparr>ActiveCamera := activeCamera\<rparr>"

definition forceRedrawNextFrame :: "'m Scene \<Rightarrow> 'm Scene" where
  "forceRedrawNextFrame s = s\<lparr>ForceRedrawThisFrame := True\<rparr>"

subsection \<open>View change check\<close>

definition HasViewChangedSinceLastRedraw :: "'m Math_ops \<Rightarrow> 'm Scene \<Rightarrow> bool" where
  "HasViewChangedSinceLastRedraw M s =
     (case ActiveCamera s of
        None \<Rightarrow> True
      | Some cam \<Rightarrow>
          \<not> equals M (multiply M (CameraSceneNode.Projection cam) (ViewMatrix cam))
                     (LastViewProj s))"

definition StoreViewMatrixForRedrawCheck :: "'m Math_ops \<Rightarrow> 'm Scene \<Rightarrow> 'm Scene" where
  "StoreViewMatrixForRedrawCheck M s =
     (case ActiveCamera s of
        None \<Rightarrow> s
      | Some cam \<Rightarrow>
          s\<lparr>LastViewProj := multiply M (CameraSceneNode.Projection cam) (ViewMatrix cam)\<rparr>)"

subsection \<open>Deferred deletion\<close>

text \<open>
  Modelled from the spec: \<open>SceneNode.removeChild\<close> is not in the source. A node's
  children are an ordered list owned by the parent and the parent reference is a
  back-link; removing a child takes it out of that list and clears its back-link. A
  node that is not among the children is left alone.
\<close>

definition removeChild :: "nodeid \<Rightarrow> nodeid \<Rightarrow> (nodeid \<Rightarrow> SceneNode) \<Rightarrow> (nodeid \<Rightarrow> SceneNode)" where
  "removeChild p c h =
     (if c \<in> set (Children (h p))
      then (let h1 = h(c := (h c)\<lparr>Parent := None\<rparr>)
            in h1(p := (h1 p)\<lparr>Children := remove1 c (Children (h1 p))\<rparr>))
      else h)"

text \<open>
  Modelled from the spec: \<open>MetaTriangleSelector.removeSelector\<close> is not in the source.
  The collision world indexes selectors in a list; removing a selector takes its entry
  out of the list.
\<close>

definition removeSelector :: "selector \<Rightarrow> selector list \<Rightarrow> selector list" where
  "removeSelector toRemove sels = remove1 toRemove sels"

definition addToDeletionQueue :: "nodeid \<Rightarrow> int \<Rightarrow> int \<Rightarrow> 'm Scene \<Rightarrow> 'm Scene" where
  "addToDeletionQueue n afterTimeMs time s =
     s\<lparr>DeletionList := DeletionList s @ [\<lparr>node = n, timeAfterToDelete = afterTimeMs + time\<rparr>]\<rparr>"

text \<open>
  The body of the loop of \<open>clearDeletionList\<close> for an entry that is due: the node is
  taken from its parent when it has one, and its selector from the collision world when
  the scene has a collision world and the node a selector.
\<close>

definition deleteEntryNode :: "DeletionEntry \<Rightarrow> 'm Scene \<Rightarrow> 'm Scene" where
  "deleteEntryNode e s =
     (let s1 = (case Parent (nodes s (node e)) of
                  Some p \<Rightarrow> s\<lparr>nodes := removeChild p (node e) (nodes s)\<rparr>
                | None \<Rightarrow> s)
      in case CollisionWorld s1 of
           None \<Rightarrow> s1
         | Some cw \<Rightarrow>
             (case Selector (nodes s1 (node e)) of
                None \<Rightarrow> s1
              | Some sel \<Rightarrow> s1\<lparr>CollisionWorld := Some (removeSelector sel cw)\<rparr>))"

text \<open>
  The loop walks the list from the front; an entry that is deleted is spliced out and
  the walk goes on at the same position, an entry that is kept advances it. The result
  is the returned flag, the entries kept, and the scene.
\<close>

fun clearDeletionLoop ::
  "bool \<Rightarrow> int \<Rightarrow> DeletionEntry list \<Rightarrow> 'm Scene \<Rightarrow> bool \<times> DeletionEntry list \<times> 'm Scene" where
  "clearDeletionLoop deleteAll time [] s = (False, [], s)"
| "clearDeletionLoop deleteAll time (e # es) s =
     (if deleteAll \<or> timeAfterToDelete e < time then
        (let rest = clearDeletionLoop deleteAll time es (deleteEntryNode e s)
         in (True, fst (snd rest), snd (snd rest)))
      else
        (let rest = clearDeletionLoop deleteAll time es s
         in (fst rest, e # fst (snd rest), snd (snd rest))))"

definition clearDeletionList :: "bool \<Rightarrow> int \<Rightarrow> 'm Scene \<Rightarrow> bool \<times> 'm Scene" where
  "clearDeletionList deleteAll time s =
     (if DeletionList s = [] then (False, s)
      else (let r = clearDeletionLoop deleteAll time (DeletionList s) s
            in (fst r, (snd (snd r))\<lparr>DeletionList := fst (snd r)\<rparr>)))"

subsection \<open>The redraw decision\<close>

text \<open>
  What a tick takes from outside the scene: the timer's reading, what the animate pass
  over the graph returned, and what the scripting interface answers when asked. The
  animators' own changes to the scene happen between the ticks of the model.
\<close>

record TickInput =
  now :: int
  animChanged :: bool
  scriptNeedsRedraw :: bool

definition doAnimate ::
  "'m Math_ops \<Rightarrow> TickInput \<Rightarrow> 'm Renderer option \<Rightarrow> 'm Scene
     \<Rightarrow> bool \<times> 'm Scene \<times> 'm Renderer option" where
  "doAnimate M inp renderer s =
     (let s1 = (if StartTime s = 0 then s\<lparr>StartTime := now inp\<rparr> else s);
          s2 = s1\<lparr>TheSkyBoxSceneNode := None\<rparr>;
          del = clearDeletionList False (now inp) s2;
          s3 = snd del;
          sceneChanged = (fst del \<or> animChanged inp);
          viewHasChanged = HasViewChangedSinceLastRedraw M s3;
          tex = (case renderer of
                   None \<Rightarrow> (False, None)
                 | Some r \<Rightarrow> (fst (getAndResetTextureWasLoadedFlag r),
                             Some (snd (getAndResetTextureWasLoadedFlag r))));
          textureLoadWasFinished = fst tex;
          needToRedraw =
            (ForceRedrawThisFrame s3 \<or>
             (RedrawMode s3 = 0 \<and> (viewHasChanged \<or> textureLoadWasFinished)) \<or>
             (RedrawMode s3 = 1 \<and> (viewHasChanged \<or> sceneChanged \<or> textureLoadWasFinished)) \<or>
             RedrawMode s3 = 2 \<or>
             scriptNeedsRedraw inp)
      in if \<not> needToRedraw then (False, s3, snd tex)
         else (True, s3\<lparr>ForceRedrawThisFrame := False\<rparr>, snd tex))"

subsection \<open>Registration and drawing\<close>

definition registerNodeForRendering :: "nodeid \<Rightarrow> int option \<Rightarrow> 'm Scene \<Rightarrow> 'm Scene" where
  "registerNodeForRendering n mode s =
     (let mode' = (case mode of None \<Rightarrow> RENDER_MODE_DEFAULT | Some m \<Rightarrow> m)
      in if mode' = RENDER_MODE_SKYBOX then s\<lparr>SkyBoxSceneNode := Some n\<rparr>
         else if mode' = RENDER_MODE_DEFAULT then s\<lparr>SceneNodesToRender := SceneNodesToRender s @ [n]\<rparr>
         else if mode' = RENDER_MODE_LIGHTS then s\<lparr>LightsToRender := LightsToRender s @ [n]\<rparr>
         else if mode' = RENDER_MODE_CAMERA then s
         else if mode' = RENDER_MODE_TRANSPARENT
           then s\<lparr>SceneNodesToRenderTransparent := SceneNodesToRenderTransparent s @ [n]\<rparr>
         else if mode' = RENDER_MODE_2DOVERLAY then s\<lparr>Overlay2DToRender := Overlay2DToRender s @ [n]\<rparr>
         else s)"

text \<open>
  The registration traversal \<open>RootNode.OnRegisterSceneNode(this)\<close> is code of the node
  classes; what reaches the scene is the sequence of \<open>registerNodeForRendering\<close> calls
  that the visible nodes make, which is the input \<open>regs\<close> of a frame.
\<close>

definition OnRegisterSceneNode :: "(nodeid \<times> int option) list \<Rightarrow> 'm Scene \<Rightarrow> 'm Scene" where
  "OnRegisterSceneNode regs s = fold (\<lambda>c. registerNodeForRendering (fst c) (snd c)) regs s"

text \<open>
  \<open>Array.prototype.sort\<close> with a comparison function belongs to the language; it is
  modelled as the stable sort that the language standard (since its 2019 edition)
  requires of it, by insertion: an element goes before the first one that the
  comparison does not put it after.
\<close>

fun insertSorted :: "('a \<Rightarrow> 'a \<Rightarrow> int) \<Rightarrow> 'a \<Rightarrow> 'a list \<Rightarrow> 'a list" where
  "insertSorted cmp x [] = [x]"
| "insertSorted cmp x (y # ys) = (if cmp x y \<le> 0 then x # y # ys else y # insertSorted cmp x ys)"

definition arraySort :: "('a \<Rightarrow> 'a \<Rightarrow> int) \<Rightarrow> 'a list \<Rightarrow> 'a list" where
  "arraySort cmp xs = foldr (insertSorted cmp) xs []"

definition lightCompare :: "'m Math_ops \<Rightarrow> 'm Node_ops \<Rightarrow> Vect3d \<Rightarrow> nodeid \<Rightarrow> nodeid \<Rightarrow> int" where
  "lightCompare M N camPos a b =
     (let distance1 = getDistanceFromSQ M camPos (getAbsolutePosition N a);
          distance2 = getDistanceFromSQ M camPos (getAbsolutePosition N b)
      in if distance1 > distance2 then 1
         else if distance1 < distance2 then - 1
         else 0)"

definition transparentCompare :: "'m Math_ops \<Rightarrow> 'm Node_ops \<Rightarrow> Vect3d \<Rightarrow> nodeid \<Rightarrow> nodeid \<Rightarrow> int" where
  "transparentCompare M N camPos a b =
     (let distance1 = getDistanceFromSQ M camPos (getAbsolutePosition N a);
          distance2 = getDistanceFromSQ M camPos (getAbsolutePosition N b)
      in if distance1 < distance2 then 1
         else if distance1 > distance2 then - 1
         else 0)"

definition renderNodes :: "'m Node_ops \<Rightarrow> int \<Rightarrow> nodeid list \<Rightarrow> 'm Renderer \<Rightarrow> 'm Renderer" where
  "renderNodes N mode ns r = fold (render N mode) ns r"

text \<open>
  The stages of \<open>drawAll\<close> up to the light pass: the lists are emptied, the nodes
  register, and the light list is sorted when there is a camera and a light.
\<close>

definition registerForRendering :: "(nodeid \<times> int option) list \<Rightarrow> 'm Scene \<Rightarrow> 'm Scene" where
  "registerForRendering regs s =
     (OnRegisterSceneNode regs
        (s\<lparr>SceneNodesToRender := [], SceneNodesToRenderTransparent := [],
           LightsToRender := [], Overlay2DToRender := []\<rparr>))
      \<lparr>CurrentCameraFrustrum := None, SkinnedMeshesRenderedLastTime := 0\<rparr>"

definition cameraPosition :: "'m Node_ops \<Rightarrow> 'm Scene \<Rightarrow> Vect3d option" where
  "cameraPosition N s =
     (case ActiveCamera s of
        None \<Rightarrow> None
      | Some cam \<Rightarrow> Some (getAbsolutePosition N (CameraId cam)))"

definition sortedLights :: "'m Math_ops \<Rightarrow> 'm Node_ops \<Rightarrow> 'm Scene \<Rightarrow> nodeid list" where
  "sortedLights M N s =
     (case cameraPosition N s of
        None \<Rightarrow> LightsToRender s
      | Some camPos \<Rightarrow>
          (if length (LightsToRender s) > 0
           then arraySort (lightCompare M N camPos) (LightsToRender s)
           else LightsToRender s))"

definition sortedTransparent :: "'m Math_ops \<Rightarrow> 'm Node_ops \<Rightarrow> 'm Scene \<Rightarrow> nodeid list" where
  "sortedTransparent M N s =
     (case cameraPosition N s of
        None \<Rightarrow> SceneNodesToRenderTransparent s
      | Some camPos \<Rightarrow>
          (if length (SceneNodesToRenderTransparent s) > 0
           then arraySort (transparentCompare M N camPos) (SceneNodesToRenderTransparent s)
           else SceneNodesToRenderTransparent s))"

text \<open>
  The light pass of \<open>drawAll\<close>: the renderer's lights are cleared and its ambient light
  set, and the lights are rendered in their sorted order.
\<close>

definition lightPass :: "'m Math_ops \<Rightarrow> 'm Node_ops \<Rightarrow> 'm Scene \<Rightarrow> 'm Renderer \<Rightarrow> 'm Renderer" where
  "lightPass M N s r =
     renderNodes N RENDER_MODE_LIGHTS (sortedLights M N s)
       ((clearDynamicLights r)\<lparr>Renderer.AmbientLight := Scene.AmbientLight s\<rparr>)"

text \<open>
  The test \<open>cullingBox == null || cullingBox.intersectsWithBox(...)\<close> of the two node
  loops: there is a culling box when there is a camera position and culling is in use,
  and it is the bounding box of the frustum of projection times view.
\<close>

definition cullingPasses :: "'m Math_ops \<Rightarrow> 'm Node_ops \<Rightarrow> 'm Scene \<Rightarrow> 'm Renderer \<Rightarrow> nodeid \<Rightarrow> bool" where
  "cullingPasses M N s r n =
     (case cameraPosition N s of
        None \<Rightarrow> True
      | Some camPos \<Rightarrow>
          (if UseCulling s
           then intersectsWithBox N (multiply M (getProjection r) (getView r)) camPos n
           else True))"

text \<open>
  The result of \<open>drawAll\<close>: the scene, the renderer, and the sequence of \<open>render\<close>
  calls that it made, each with the render mode that was current.
\<close>

definition drawAll ::
  "'m Math_ops \<Rightarrow> 'm Node_ops \<Rightarrow> (nodeid \<times> int option) list \<Rightarrow> 'm Renderer \<Rightarrow> 'm Scene
     \<Rightarrow> 'm Scene \<times> 'm Renderer \<times> (int \<times> nodeid) list" where
  "drawAll M N regs renderer s =
     (let s1 = registerForRendering regs s;
          camPos = cameraPosition N s1;
          camNodes = (case ActiveCamera s1 of None \<Rightarrow> [] | Some cam \<Rightarrow> [CameraId cam]);
          r1 = renderNodes N RENDER_MODE_CAMERA camNodes renderer;
          skyNodes = (case SkyBoxSceneNode s1 of None \<Rightarrow> [] | Some n \<Rightarrow> [n]);
          r2 = renderNodes N RENDER_MODE_SKYBOX skyNodes r1;
          lights = sortedLights M N s1;
          r4 = lightPass M N s1 r2;
          frustrum = (case camPos of
                        None \<Rightarrow> None
                      | Some cp \<Rightarrow> Some (multiply M (getProjection r4) (getView r4)));
          visible = cullingPasses M N s1 r4;
          opaque = filter visible (SceneNodesToRender s1);
          r5 = renderNodes N RENDER_MODE_DEFAULT opaque r4;
          transparent = sortedTransparent M N s1;
          drawnTransparent = filter visible transparent;
          r6 = renderNodes N RENDER_MODE_TRANSPARENT drawnTransparent r5;
          r7 = renderNodes N RENDER_MODE_2DOVERLAY (Overlay2DToRender s1) r6;
          nodesRendered = length lights + length opaque + length drawnTransparent
                            + length (Overlay2DToRender s1);
          s2 = s1\<lparr>LightsToRender := lights,
                  SceneNodesToRenderTransparent := transparent,
                  CurrentCameraFrustrum := frustrum,
                  CurrentRenderMode := RENDER_MODE_2DOVERLAY,
                  NodeCountRenderedLastTime := nodesRendered\<rparr>
      in (StoreViewMatrixForRedrawCheck M s2, r7,
          map (Pair RENDER_MODE_CAMERA) camNodes @ map (Pair RENDER_MODE_SKYBOX) skyNodes @
          map (Pair RENDER_MODE_LIGHTS) lights @ map (Pair RENDER_MODE_DEFAULT) opaque @
          map (Pair RENDER_MODE_TRANSPARENT) drawnTransparent @
          map (Pair RENDER_MODE_2DOVERLAY) (Overlay2DToRender s1)))"

text \<open>
  Modelled from the spec: the tick driver is not in the source. Once per tick the
  scheduler asks the scene whether a redraw is necessary; if the decision is that no
  redraw is needed, the frame produces no draw calls and the tick ends there, otherwise
  the render passes run.
\<close>

definition frame ::
  "'m Math_ops \<Rightarrow> 'm Node_ops \<Rightarrow> TickInput \<Rightarrow> (nodeid \<times> int option) list \<Rightarrow> 'm Renderer \<Rightarrow> 'm Scene
     \<Rightarrow> 'm Scene \<times> 'm Renderer \<times> (int \<times> nodeid) list" where
  "frame M N inp regs renderer s =
     (let a = doAnimate M inp (Some renderer) s;
          r1 = (case snd (snd a) of None \<Rightarrow> renderer | Some r \<Rightarrow> r)
      in if fst a then drawAll M N regs r1 (fst (snd a)) else (fst (snd a), r1, []))"

text \<open>
  Modelled from the spec: the light node class is not in the source. A light carries
  position, colour, attenuation and radius, a flag for being directional and a direction;
  rendering a light node hands its light to the renderer, a directional one through
  \<open>setDirectionalLight\<close> and a point light through \<open>addDynamicLight\<close>.
\<close>

definition renderLightNode :: "(nodeid \<Rightarrow> Light) \<Rightarrow> nodeid \<Rightarrow> 'm Renderer \<Rightarrow> 'm Renderer" where
  "renderLightNode lightData n r =
     (if IsDirectional (lightData n) then setDirectionalLight (lightData n) r
      else addDynamicLight (lightData n) r)"

subsection \<open>Reading a frame\<close>

text \<open>
  The nodes that registered for a render mode in a registration pass, the nodes whose
  \<open>render\<close> was called under a render mode in a frame, and the squared distance of a
  node from the camera, as the comparison functions compute it.
\<close>

definition registeredIn :: "int \<Rightarrow> (nodeid \<times> int option) list \<Rightarrow> nodeid list" where
  "registeredIn mode regs =
     map fst (filter (\<lambda>c. (case snd c of None \<Rightarrow> RENDER_MODE_DEFAULT | Some m \<Rightarrow> m) = mode) regs)"

definition renderedIn :: "int \<Rightarrow> (int \<times> nodeid) list \<Rightarrow> nodeid list" where
  "renderedIn mode rcalls = map snd (filter (\<lambda>c. fst c = mode) rcalls)"

definition cameraDistanceSQ :: "'m Math_ops \<Rightarrow> 'm Node_ops \<Rightarrow> 'm CameraSceneNode \<Rightarrow> nodeid \<Rightarrow> real" where
  "cameraDistanceSQ M N cam n =
     getDistanceFromSQ M (getAbsolutePosition N (CameraId cam)) (getAbsolutePosition N n)"

subsection \<open>Runs of ticks\<close>

text \<open>
  A run of ticks: \<open>doAnimate\<close> once per tick, each on the scene and the renderer that
  the tick before left.
\<close>

fun runTicks :: "'m Math_ops \<Rightarrow> TickInput list \<Rightarrow> 'm Renderer option \<Rightarrow> 'm Scene \<Rightarrow> 'm Scene" where
  "runTicks M [] renderer s = s"
| "runTicks M (inp # inps) renderer s =
     runTicks M inps (snd (snd (doAnimate M inp renderer s))) (fst (snd (doAnimate M inp renderer s)))"

text \<open>
  Two conditions that the proofs about deferred deletion carry from tick to tick: the
  node is a child of its parent, in a child list without repetitions, and every entry
  that the queue has for it (there is one) has the same deadline; and the node has a
  selector and the scene a collision world that indexes no selector twice.
\<close>

definition attachedAndQueued :: "nodeid \<Rightarrow> nodeid \<Rightarrow> int \<Rightarrow> 'm Scene \<Rightarrow> bool" where
  "attachedAndQueued n p deadline s =
     (Parent (nodes s n) = Some p \<and> n \<in> set (Children (nodes s p)) \<and>
      distinct (Children (nodes s p)) \<and>
      (\<exists>e \<in> set (DeletionList s). node e = n) \<and>
      (\<forall>e \<in> set (DeletionList s). node e = n \<longrightarrow> timeAfterToDelete e = deadline))"

definition indexedOnce :: "nodeid \<Rightarrow> selector \<Rightarrow> 'm Scene \<Rightarrow> bool" where
  "indexedOnce n sel s =
     (Selector (nodes s n) = Some sel \<and> (\<exists>cw. CollisionWorld s = Some cw \<and> distinct cw))"

section \<open>Example values\<close>

text \<open>
  Concrete leaf operations over one-by-one integer matrices, with the squared Euclidean
  distance and the channels of a packed ARGB colour, for evaluating the model.
\<close>

definition exampleOps :: "int Math_ops" where
  "exampleOps =
     \<lparr>multiply = (\<lambda>a b. a * b), equals = (\<lambda>a b. a = b), identity = 1,
      getInverse = (\<lambda>w out. if w = 1 \<or> w = - 1 then w else out),
      makeInverse = (\<lambda>m. m), getTransposed = (\<lambda>m. m),
      getTransformedVect = (\<lambda>m v. \<lparr>X = of_int m * Vect3d.X v, Y = of_int m * Vect3d.Y v,
                                     Z = of_int m * Z v\<rparr>),
      rotateVect = (\<lambda>m v. v),
      getDistanceFromSQ = (\<lambda>a b. (Vect3d.X a - Vect3d.X b) * (Vect3d.X a - Vect3d.X b)
                                 + (Vect3d.Y a - Vect3d.Y b) * (Vect3d.Y a - Vect3d.Y b)
                                 + (Z a - Z b) * (Z a - Z b)),
      multiplyThisWithScal = (\<lambda>v k. \<lparr>X = k * Vect3d.X v, Y = k * Vect3d.Y v, Z = k * Z v\<rparr>),
      normalize = (\<lambda>v. v),
      getRed = (\<lambda>c. of_int ((c div 65536) mod 256)),
      getGreen = (\<lambda>c. of_int ((c div 256) mod 256)),
      getBlue = (\<lambda>c. of_int (c mod 256)),
      getAlpha = (\<lambda>c. of_int ((c div 16777216) mod 256))\<rparr>"

definition exampleNode :: SceneNode where
  "exampleNode = \<lparr>Parent = None, Children = [], Selector = None\<rparr>"

definition exampleScene :: "int Scene" where
  "exampleScene =
     \<lparr>nodes = (\<lambda>n. exampleNode), CollisionWorld = None,
      AmbientLight = \<lparr>R = 0, G = 0, B = 0\<rparr>, StartTime = 0, ActiveCamera = None,
      ForceRedrawThisFrame = False, LastViewProj = 1, TheSkyBoxSceneNode = None,
      SkyBoxSceneNode = None, RedrawMode = 2, CurrentRenderMode = 0,
      SceneNodesToRender = [], SceneNodesToRenderTransparent = [], LightsToRender = [],
      Overlay2DToRender = [], NodeCountRenderedLastTime = 0,
      SkinnedMeshesRenderedLastTime = 0, UseCulling = False, CurrentCameraFrustrum = None,
      DeletionList = []\<rparr>"

definition exampleCamScene :: "int Scene" where
  "exampleCamScene =
     exampleScene\<lparr>ActiveCamera := Some \<lparr>CameraId = 0, Projection = 1, ViewMatrix = 1\<rparr>,
                  LastViewProj := 1, StartTime := 5\<rparr>"

text \<open>
  A camera (node 0) at the origin, node 1 at distance 1, nodes 2 and 3 at distance 5;
  node \<open>n\<close> is a point light when it is rendered in the light pass.
\<close>

definition examplePosition :: "nodeid \<Rightarrow> Vect3d" where
  "examplePosition n =
     (if n = 1 then \<lparr>X = 1, Y = 0, Z = 0\<rparr>
      else if n = 2 then \<lparr>X = 5, Y = 0, Z = 0\<rparr>
      else if n = 3 then \<lparr>X = 0, Y = 5, Z = 0\<rparr>
      else \<lparr>X = 0, Y = 0, Z = 0\<rparr>)"

definition exampleLight :: "nodeid \<Rightarrow> Light" where
  "exampleLight n =
     \<lparr>Position = examplePosition n, Color = \<lparr>R = 1, G = 1, B = 1\<rparr>, Attenuation = 1,
      Radius = 100, IsDirectional = False, Direction = None\<rparr>"

definition exampleNodeOps :: "int Node_ops" where
  "exampleNodeOps =
     \<lparr>getAbsolutePosition = examplePosition,
      render = (\<lambda>mode n r. if mode = RENDER_MODE_LIGHTS then renderLightNode exampleLight n r else r),
      intersectsWithBox = (\<lambda>f camPos n. True)\<rparr>"

definition exampleProgram :: Program where
  "exampleProgram =
     \<lparr>locWorldViewProj = Some 0, locNormalMatrix = None, locModelViewMatrix = None,
      locModelWorldMatrix = None, locLightPositions = Some 1, locLightColors = Some 2,
      locDirectionalLight = None, locDirectionalLightColor = None\<rparr>"

definition exampleGL :: "int GL" where
  "exampleGL = \<lparr>nextBuffer = 0, arrayBinding = None, elementBinding = None,
                bufferStore = [], calls = []\<rparr>"

definition exampleRenderer :: "int Renderer" where
  "exampleRenderer =
     \<lparr>gl = Some exampleGL, textureWasLoadedFlag = False, Projection = 1, View = 1, World = 1,
      AmbientLight = \<lparr>R = 0, G = 0, B = 0\<rparr>, Lights = [], DirectionalLight = None,
      currentGLProgram = Some exampleProgram\<rparr>"

definition exampleCamera :: "int CameraSceneNode" where
  "exampleCamera = \<lparr>CameraId = 0, Projection = 1, ViewMatrix = 1\<rparr>"

definition exampleTransparentRegs :: "(nodeid \<times> int option) list" where
  "exampleTransparentRegs =
     [(1, Some RENDER_MODE_TRANSPARENT), (2, Some RENDER_MODE_TRANSPARENT),
      (3, Some RENDER_MODE_TRANSPARENT)]"

definition exampleGraphScene :: "int Scene" where
  "exampleGraphScene =
     exampleScene\<lparr>nodes := (\<lambda>n. if n = 0 then \<lparr>Parent = None, Children = [1], Selector = None\<rparr>
                                else if n = 1 then \<lparr>Parent = Some 0, Children = [], Selector = Some 7\<rparr>
                                else exampleNode),
                  CollisionWorld := Some [7]\<rparr>"

text \<open>A quad of four vertices and two triangles, without a device resource.\<close>

definition exampleVertex :: "real \<Rightarrow> real \<Rightarrow> Vertex3D" where
  "exampleVertex x y =
     \<lparr>Pos = \<lparr>X = x, Y = y, Z = 0\<rparr>, Normal = \<lparr>X = 0, Y = 0, Z = 1\<rparr>, Color = 4294967295,
      TCoords = \<lparr>Vect2d.X = x, Vect2d.Y = y\<rparr>, TCoords2 = \<lparr>Vect2d.X = 0, Vect2d.Y = 0\<rparr>\<rparr>"

definition exampleQuad :: MeshBuffer where
  "exampleQuad =
     \<lparr>Vertices = [exampleVertex 0 0, exampleVertex 1 0, exampleVertex 1 1, exampleVertex 0 1],
      Indices = [0, 1, 2, 0, 2, 3], Tangents = None, Binormals = None,
      RendererNativeArray = None, OnlyPositionsChanged = False,
      OnlyUpdateBufferIfPossible = False\<rparr>"

text \<open>
  A buffer without vertices and indices; the quad with its device resource, on the context
  that created it; the quad grown by a vertex and a triangle, moved, and shrunk to one
  vertex, each flagged for the size-preserving update.
\<close>

definition exampleEmpty :: MeshBuffer where
  "exampleEmpty =
     \<lparr>Vertices = [], Indices = [], Tangents = None, Binormals = None,
      RendererNativeArray = None, OnlyPositionsChanged = False,
      OnlyUpdateBufferIfPossible = False\<rparr>"

definition exampleCreated :: MeshBuffer where
  "exampleCreated = fst (projr (createRendererNativeArray exampleOps exampleQuad exampleGL))"

definition exampleGL1 :: "int GL" where
  "exampleGL1 = snd (projr (createRendererNativeArray exampleOps exampleQuad exampleGL))"

definition exampleGrown :: MeshBuffer where
  "exampleGrown =
     exampleCreated\<lparr>Vertices := Vertices exampleQuad @ [exampleVertex 2 2],
                    Indices := Indices exampleQuad @ [0, 3, 4],
                    OnlyUpdateBufferIfPossible := True\<rparr>"

definition exampleMoved :: MeshBuffer where
  "exampleMoved =
     exampleCreated\<lparr>Vertices := [exampleVertex 0 0, exampleVertex 2 0, exampleVertex 2 2,
                                  exampleVertex 0 2],
                    OnlyUpdateBufferIfPossible := True\<rparr>"

definition exampleShrunk :: MeshBuffer where
  "exampleShrunk =
     exampleCreated\<lparr>Vertices := [exampleVertex 5 5], Indices := [0, 0, 0],
                    OnlyUpdateBufferIfPossible := True\<rparr>"

text \<open>
  A buffer whose first index does not fit into sixteen bits.
\<close>

definition exampleWide :: MeshBuffer where
  "exampleWide = exampleQuad\<lparr>Indices := [65536, 1, 2]\<rparr>"

text \<open>
  Five point lights registered in the order 2, 1, 4, 3, 5 (nodes 4 and 5 are at the
  origin, where the camera is), a scene with an ambient colour, and the renderer as the
  light pass of that scene leaves it.
\<close>

definition exampleLightRegs :: "(nodeid \<times> int option) list" where
  "exampleLightRegs =
     [(2, Some RENDER_MODE_LIGHTS), (1, Some RENDER_MODE_LIGHTS), (4, Some RENDER_MODE_LIGHTS),
      (3, Some RENDER_MODE_LIGHTS), (5, Some RENDER_MODE_LIGHTS)]"

definition exampleLightScene :: "int Scene" where
  "exampleLightScene = exampleCamScene\<lparr>Scene.AmbientLight := \<lparr>R = 1 / 2, G = 1 / 4, B = 1 / 8\<rparr>\<rparr>"

definition exampleLitRenderer :: "int Renderer" where
  "exampleLitRenderer =
     lightPass exampleOps exampleNodeOps (registerForRendering exampleLightRegs exampleLightScene)
       exampleRenderer"

definition exampleTick :: "int \<Rightarrow> TickInput" where
  "exampleTick t = \<lparr>now = t, animChanged = False, scriptNeedsRedraw = False\<rparr>"

section \<open>Properties of the redraw decision\<close>

text \<open>The deletion flush writes the node heap, the collision world and the queue only.\<close>

lemma deleteEntryNode_absorb:
  "(deleteEntryNode e s)\<lparr>nodes := h, CollisionWorld := c\<rparr> = s\<lparr>nodes := h, CollisionWorld := c\<rparr>"
  by (simp add: deleteEntryNode_def Let_def split: option.splits)

lemma clearDeletionLoop_absorb:
  "(snd (snd (clearDeletionLoop d t es s)))\<lparr>nodes := h, CollisionWorld := c\<rparr>
     = s\<lparr>nodes := h, CollisionWorld := c\<rparr>"
proof (induction es arbitrary: s)
  case Nil
  show ?case by simp
next
  case (Cons e es)
  show ?case
  proof (cases "d \<or> timeAfterToDelete e < t")
    case True
    then show ?thesis
      using Cons.IH [of "deleteEntryNode e s"] by (simp add: Let_def deleteEntryNode_absorb)
  next
    case False
    then show ?thesis
      using Cons.IH [of s] by (simp add: Let_def)
  qed
qed

lemma clearDeletionList_absorb:
  "(snd (clearDeletionList d t s))\<lparr>nodes := h, CollisionWorld := c, DeletionList := l\<rparr>
     = s\<lparr>nodes := h, CollisionWorld := c, DeletionList := l\<rparr>"
proof (cases "DeletionList s = []")
  case True
  then show ?thesis by (simp add: clearDeletionList_def)
next
  case False
  have "(snd (snd (clearDeletionLoop d t (DeletionList s) s)))\<lparr>nodes := h, CollisionWorld := c\<rparr>
          = s\<lparr>nodes := h, CollisionWorld := c\<rparr>"
    by (rule clearDeletionLoop_absorb)
  then have "(snd (snd (clearDeletionLoop d t (DeletionList s) s)))
               \<lparr>nodes := h, CollisionWorld := c\<rparr>\<lparr>DeletionList := l\<rparr>
             = s\<lparr>nodes := h, CollisionWorld := c\<rparr>\<lparr>DeletionList := l\<rparr>"
    by simp
  with False show ?thesis by (simp add: clearDeletionList_def Let_def)
qed

lemma clearDeletionList_fields:
  "RedrawMode (snd (clearDeletionList d t s)) = RedrawMode s"
  "ActiveCamera (snd (clearDeletionList d t s)) = ActiveCamera s"
  "LastViewProj (snd (clearDeletionList d t s)) = LastViewProj s"
  "ForceRedrawThisFrame (snd (clearDeletionList d t s)) = ForceRedrawThisFrame s"
  "SkyBoxSceneNode (snd (clearDeletionList d t s)) = SkyBoxSceneNode s"
  "StartTime (snd (clearDeletionList d t s)) = StartTime s"
proof -
  have eq: "(snd (clearDeletionList d t s))\<lparr>nodes := nodes s, CollisionWorld := None, DeletionList := []\<rparr>
              = s\<lparr>nodes := nodes s, CollisionWorld := None, DeletionList := []\<rparr>"
    by (rule clearDeletionList_absorb)
  from arg_cong [OF eq, of RedrawMode]
  show "RedrawMode (snd (clearDeletionList d t s)) = RedrawMode s" by simp
  from arg_cong [OF eq, of ActiveCamera]
  show "ActiveCamera (snd (clearDeletionList d t s)) = ActiveCamera s" by simp
  from arg_cong [OF eq, of LastViewProj]
  show "LastViewProj (snd (clearDeletionList d t s)) = LastViewProj s" by simp
  from arg_cong [OF eq, of ForceRedrawThisFrame]
  show "ForceRedrawThisFrame (snd (clearDeletionList d t s)) = ForceRedrawThisFrame s" by simp
  from arg_cong [OF eq, of SkyBoxSceneNode]
  show "SkyBoxSceneNode (snd (clearDeletionList d t s)) = SkyBoxSceneNode s" by simp
  from arg_cong [OF eq, of StartTime]
  show "StartTime (snd (clearDeletionList d t s)) = StartTime s" by simp
qed

lemma HasViewChanged_clearDeletionList:
  "HasViewChangedSinceLastRedraw M (snd (clearDeletionList d t s)) = HasViewChangedSinceLastRedraw M s"
  by (simp add: HasViewChangedSinceLastRedraw_def clearDeletionList_fields split: option.splits)

lemma HasViewChanged_updates:
  "HasViewChangedSinceLastRedraw M (s\<lparr>StartTime := x\<rparr>) = HasViewChangedSinceLastRedraw M s"
  "HasViewChangedSinceLastRedraw M (s\<lparr>TheSkyBoxSceneNode := y\<rparr>) = HasViewChangedSinceLastRedraw M s"
  by (simp_all add: HasViewChangedSinceLastRedraw_def split: option.splits)

text \<open>
  What \<open>doAnimate\<close> decides, in terms of the scene it is called on.
\<close>

lemma doAnimate_decision:
  "fst (doAnimate M inp renderer s) =
     (ForceRedrawThisFrame s \<or>
      (RedrawMode s = 0 \<and>
         (HasViewChangedSinceLastRedraw M s \<or> (\<exists>r. renderer = Some r \<and> textureWasLoadedFlag r))) \<or>
      (RedrawMode s = 1 \<and>
         (HasViewChangedSinceLastRedraw M s \<or> fst (clearDeletionList False (now inp)
             ((if StartTime s = 0 then s\<lparr>StartTime := now inp\<rparr> else s)\<lparr>TheSkyBoxSceneNode := None\<rparr>))
          \<or> animChanged inp \<or> (\<exists>r. renderer = Some r \<and> textureWasLoadedFlag r))) \<or>
      RedrawMode s = 2 \<or>
      scriptNeedsRedraw inp)"
  by (cases renderer; cases "StartTime s = 0")
     (auto simp: doAnimate_def Let_def clearDeletionList_fields HasViewChanged_clearDeletionList
                 HasViewChanged_updates getAndResetTextureWasLoadedFlag_def)

lemma doAnimate_scene_fields:
  "ActiveCamera (fst (snd (doAnimate M inp renderer s))) = ActiveCamera s"
  "SkyBoxSceneNode (fst (snd (doAnimate M inp renderer s))) = SkyBoxSceneNode s"
  "RedrawMode (fst (snd (doAnimate M inp renderer s))) = RedrawMode s"
  "LastViewProj (fst (snd (doAnimate M inp renderer s))) = LastViewProj s"
  by (simp_all add: doAnimate_def Let_def clearDeletionList_fields)

lemma doAnimate_force_flag:
  "fst (doAnimate M inp renderer s) \<Longrightarrow> \<not> ForceRedrawThisFrame (fst (snd (doAnimate M inp renderer s)))"
  by (simp add: doAnimate_def Let_def clearDeletionList_fields split: if_splits)

text \<open>
  With the value 0 that \<open>doAnimate\<close> compares the mode with, the decision is the one a
  camera-moved-only policy asks for: nothing changed gives no redraw, and a forced
  redraw happens once and takes the flag back.
\<close>

lemma doAnimate_mode_0_unchanged:
  assumes "RedrawMode s = 0" and "\<not> HasViewChangedSinceLastRedraw M s"
    and "\<not> ForceRedrawThisFrame s" and "\<not> scriptNeedsRedraw inp"
    and "renderer = None \<or> (\<exists>r. renderer = Some r \<and> \<not> textureWasLoadedFlag r)"
  shows "\<not> fst (doAnimate M inp renderer s)"
  using assms by (auto simp: doAnimate_decision)

lemma doAnimate_forced:
  "fst (doAnimate M inp renderer (forceRedrawNextFrame s))"
  "\<not> ForceRedrawThisFrame (fst (snd (doAnimate M inp renderer (forceRedrawNextFrame s))))"
  by (simp_all add: doAnimate_decision doAnimate_force_flag forceRedrawNextFrame_def)

text \<open>
  C1. The claim: after \<open>setRedrawMode(CL3D.Scene.REDRAW_WHEN_CAM_MOVED)\<close>, a tick with an
  unchanged camera, no animator change, no finished texture and no pending forced redraw
  makes \<open>doAnimate\<close> return false. The public constant is 2, the value of
  \<open>REDRAW_EVERY_FRAME\<close>, while \<open>doAnimate\<close> tests the mode against 0 for the
  camera-moved policy; with the public constant \<open>doAnimate\<close> returns true on every
  tick, whatever the camera, the animators, the textures and the flag are.
\<close>

theorem C1_public_constant_redraws_every_tick:
  "fst (doAnimate M inp renderer (setRedrawMode REDRAW_WHEN_CAM_MOVED s))"
  by (simp add: doAnimate_decision setRedrawMode_def REDRAW_WHEN_CAM_MOVED_def)

theorem C1_public_constant_redraws_every_tick_witness:
  "\<not> HasViewChangedSinceLastRedraw exampleOps (setRedrawMode REDRAW_WHEN_CAM_MOVED exampleCamScene) \<and>
   \<not> ForceRedrawThisFrame (setRedrawMode REDRAW_WHEN_CAM_MOVED exampleCamScene) \<and>
   fst (doAnimate exampleOps (exampleTick 20) None (setRedrawMode REDRAW_WHEN_CAM_MOVED exampleCamScene))"
  using C1_public_constant_redraws_every_tick [of exampleOps "exampleTick 20" None exampleCamScene]
  by (simp add: HasViewChangedSinceLastRedraw_def setRedrawMode_def exampleCamScene_def
                exampleScene_def exampleOps_def)

text \<open>
  C10. For a scene whose \<open>ActiveCamera\<close> is null, \<open>HasViewChangedSinceLastRedraw\<close> is
  true, so under each of the three redraw modes 0, 1 and 2 \<open>doAnimate\<close> returns true,
  whatever else the tick brings; the tick leaves the camera null.
\<close>

theorem C10_null_camera_redraws_every_tick:
  assumes "ActiveCamera s = None"
    and "RedrawMode s = 0 \<or> RedrawMode s = 1 \<or> RedrawMode s = 2"
  shows "HasViewChangedSinceLastRedraw M s \<and>
         fst (doAnimate M inp renderer s) \<and>
         ActiveCamera (fst (snd (doAnimate M inp renderer s))) = None"
proof -
  have v: "HasViewChangedSinceLastRedraw M s"
    using assms(1) by (simp add: HasViewChangedSinceLastRedraw_def)
  have "fst (doAnimate M inp renderer s)"
    using v assms(2) by (auto simp: doAnimate_decision)
  with v assms(1) show ?thesis
    by (simp add: doAnimate_scene_fields)
qed

theorem C10_null_camera_redraws_every_tick_witness:
  "ActiveCamera (exampleScene\<lparr>RedrawMode := 0\<rparr>) = None \<and>
   RedrawMode (exampleScene\<lparr>RedrawMode := 0\<rparr>) = 0 \<and>
   HasViewChangedSinceLastRedraw exampleOps (exampleScene\<lparr>RedrawMode := 0\<rparr>) \<and>
   fst (doAnimate exampleOps (exampleTick 20) None (exampleScene\<lparr>RedrawMode := 0\<rparr>)) \<and>
   ActiveCamera (fst (snd (doAnimate exampleOps (exampleTick 20) None
                             (exampleScene\<lparr>RedrawMode := 0\<rparr>)))) = None"
proof -
  have a: "ActiveCamera (exampleScene\<lparr>RedrawMode := 0\<rparr>) = None"
    by (simp add: exampleScene_def)
  have b: "RedrawMode (exampleScene\<lparr>RedrawMode := 0\<rparr>) = 0 \<or>
           RedrawMode (exampleScene\<lparr>RedrawMode := 0\<rparr>) = 1 \<or>
           RedrawMode (exampleScene\<lparr>RedrawMode := 0\<rparr>) = 2"
    by simp
  show ?thesis
    using C10_null_camera_redraws_every_tick [OF a b, of exampleOps "exampleTick 20" None] a
    by simp
qed

section \<open>Properties of the registration pass\<close>

lemma registerForRendering_Nil:
  "SceneNodesToRender (registerForRendering [] s) = []"
  "SceneNodesToRenderTransparent (registerForRendering [] s) = []"
  "LightsToRender (registerForRendering [] s) = []"
  "Overlay2DToRender (registerForRendering [] s) = []"
  "SkyBoxSceneNode (registerForRendering [] s) = SkyBoxSceneNode s"
  by (simp_all add: registerForRendering_def OnRegisterSceneNode_def)

lemma registerForRendering_skybox:
  "SkyBoxSceneNode (registerForRendering [(n, Some RENDER_MODE_SKYBOX)] s) = Some n"
  by (simp add: registerForRendering_def OnRegisterSceneNode_def registerNodeForRendering_def)

lemma StoreViewMatrix_SkyBox:
  "SkyBoxSceneNode (StoreViewMatrixForRedrawCheck M s) = SkyBoxSceneNode s"
  by (simp add: StoreViewMatrixForRedrawCheck_def split: option.splits)

lemma drawAll_SkyBox:
  "SkyBoxSceneNode (fst (drawAll M N regs r s)) = SkyBoxSceneNode (registerForRendering regs s)"
  by (simp add: drawAll_def Let_def StoreViewMatrix_SkyBox)

lemma drawAll_renders_skybox:
  "SkyBoxSceneNode (registerForRendering regs s) = Some n \<Longrightarrow>
   (RENDER_MODE_SKYBOX, n) \<in> set (snd (snd (drawAll M N regs r s)))"
  by (simp add: drawAll_def Let_def)

text \<open>
  C8. The claim: at the start of every redrawn frame the four render lists and the
  skybox slot are cleared, so a node that registered on an earlier frame and does not
  register on the current one is not rendered. The four lists are emptied by
  \<open>drawAll\<close>. The skybox slot that registration writes and \<open>drawAll\<close> reads is
  \<open>SkyBoxSceneNode\<close>, but \<open>doAnimate\<close> clears \<open>TheSkyBoxSceneNode\<close>: a skybox \<open>n\<close>
  that registered on one frame is rendered again on the next frame although nothing
  registers there.
\<close>

theorem C8_stale_skybox_is_rendered:
  "SceneNodesToRender (registerForRendering [] s') = [] \<and>
   SceneNodesToRenderTransparent (registerForRendering [] s') = [] \<and>
   LightsToRender (registerForRendering [] s') = [] \<and>
   Overlay2DToRender (registerForRendering [] s') = [] \<and>
   (RENDER_MODE_SKYBOX, n) \<in>
     set (snd (snd (drawAll M N [] r2
       (fst (snd (doAnimate M inp r1
          (fst (drawAll M N [(n, Some RENDER_MODE_SKYBOX)] r0 s))))))))"
proof -
  have "SkyBoxSceneNode (registerForRendering []
          (fst (snd (doAnimate M inp r1 (fst (drawAll M N [(n, Some RENDER_MODE_SKYBOX)] r0 s))))))
        = Some n"
    by (simp add: registerForRendering_Nil doAnimate_scene_fields drawAll_SkyBox
                  registerForRendering_skybox)
  then show ?thesis
    by (simp add: registerForRendering_Nil drawAll_renders_skybox)
qed

section \<open>Properties of the sorted passes\<close>

text \<open>
  Under each of the two comparison functions the insertion is the insertion by a key:
  the squared distance for the lights, its negative for the transparent nodes.
\<close>

lemma insertSorted_lightCompare:
  "insertSorted (lightCompare M N camPos) x ys =
     insort_key (\<lambda>n. getDistanceFromSQ M camPos (getAbsolutePosition N n)) x ys"
  by (induction ys) (simp_all add: lightCompare_def Let_def)

lemma insertSorted_transparentCompare:
  "insertSorted (transparentCompare M N camPos) x ys =
     insort_key (\<lambda>n. - getDistanceFromSQ M camPos (getAbsolutePosition N n)) x ys"
  by (induction ys) (simp_all add: transparentCompare_def Let_def)

lemma arraySort_lightCompare:
  "arraySort (lightCompare M N camPos) xs =
     sort_key (\<lambda>n. getDistanceFromSQ M camPos (getAbsolutePosition N n)) xs"
  by (induction xs) (simp_all add: arraySort_def insertSorted_lightCompare)

lemma arraySort_transparentCompare:
  "arraySort (transparentCompare M N camPos) xs =
     sort_key (\<lambda>n. - getDistanceFromSQ M camPos (getAbsolutePosition N n)) xs"
  by (induction xs) (simp_all add: arraySort_def insertSorted_transparentCompare)

lemma registerForRendering_camera:
  "ActiveCamera (registerForRendering regs s) = ActiveCamera s"
proof -
  have "ActiveCamera (OnRegisterSceneNode regs t) = ActiveCamera t" for t :: "'a Scene"
    unfolding OnRegisterSceneNode_def
    by (induction regs arbitrary: t) (simp_all add: registerNodeForRendering_def Let_def)
  then show ?thesis by (simp add: registerForRendering_def)
qed

lemma cameraPosition_registerForRendering:
  "cameraPosition N (registerForRendering regs s) = cameraPosition N s"
  by (simp add: cameraPosition_def registerForRendering_camera)

lemma sortedTransparent_camera:
  assumes "cameraPosition N s = Some camPos"
  shows "sortedTransparent M N s =
           sort_key (\<lambda>n. - getDistanceFromSQ M camPos (getAbsolutePosition N n))
             (SceneNodesToRenderTransparent s)"
  using assms
  by (cases "SceneNodesToRenderTransparent s")
     (simp_all add: sortedTransparent_def arraySort_transparentCompare)

lemma OnRegisterSceneNode_transparent:
  "SceneNodesToRenderTransparent (OnRegisterSceneNode regs t)
     = SceneNodesToRenderTransparent t @ registeredIn RENDER_MODE_TRANSPARENT regs"
  unfolding OnRegisterSceneNode_def registeredIn_def
  by (induction regs arbitrary: t)
     (simp_all add: registerNodeForRendering_def Let_def RENDER_MODE_TRANSPARENT_def
        RENDER_MODE_CAMERA_def RENDER_MODE_SKYBOX_def RENDER_MODE_LIGHTS_def
        RENDER_MODE_DEFAULT_def RENDER_MODE_2DOVERLAY_def split: option.splits)

lemma registerForRendering_transparent:
  "SceneNodesToRenderTransparent (registerForRendering regs s)
     = registeredIn RENDER_MODE_TRANSPARENT regs"
  by (simp add: registerForRendering_def OnRegisterSceneNode_transparent)

lemma registerForRendering_UseCulling:
  "UseCulling (registerForRendering regs s) = UseCulling s"
proof -
  have "UseCulling (OnRegisterSceneNode regs t) = UseCulling t" for t :: "'a Scene"
    unfolding OnRegisterSceneNode_def
    by (induction regs arbitrary: t) (simp_all add: registerNodeForRendering_def Let_def)
  then show ?thesis by (simp add: registerForRendering_def)
qed

text \<open>The transparent render calls of a frame, in the order they were made.\<close>

lemma drawAll_transparent_calls:
  "\<exists>r'. renderedIn RENDER_MODE_TRANSPARENT (snd (snd (drawAll M N regs r s)))
         = filter (cullingPasses M N (registerForRendering regs s) r')
             (sortedTransparent M N (registerForRendering regs s))"
proof -
  have m: "map snd (filter (\<lambda>c. fst c = RENDER_MODE_TRANSPARENT) (map (Pair k) ns))
             = (if k = RENDER_MODE_TRANSPARENT then ns else [])" for k and ns :: "nodeid list"
    by (cases "k = RENDER_MODE_TRANSPARENT") (simp_all add: filter_map comp_def)
  show ?thesis
    unfolding drawAll_def Let_def renderedIn_def
    by (rule exI, simp add: m comp_def RENDER_MODE_TRANSPARENT_def RENDER_MODE_CAMERA_def
          RENDER_MODE_SKYBOX_def RENDER_MODE_LIGHTS_def RENDER_MODE_DEFAULT_def
          RENDER_MODE_2DOVERLAY_def)
qed

text \<open>
  C6. In \<open>drawAll\<close> with an active camera the transparent nodes are rendered in order
  of decreasing squared distance from the camera position, and nodes at the same
  distance are rendered in the order in which they registered (among the nodes that
  pass the culling test, which is every node when culling is not in use).
\<close>

theorem C6_transparent_farthest_first_stable:
  assumes "ActiveCamera s = Some cam"
  shows "sorted_wrt (\<lambda>a b. cameraDistanceSQ M N cam b \<le> cameraDistanceSQ M N cam a)
           (renderedIn RENDER_MODE_TRANSPARENT (snd (snd (drawAll M N regs r s)))) \<and>
         (\<exists>r'. \<forall>d. filter (\<lambda>n. cameraDistanceSQ M N cam n = d)
                      (renderedIn RENDER_MODE_TRANSPARENT (snd (snd (drawAll M N regs r s))))
                  = filter (\<lambda>n. cameraDistanceSQ M N cam n = d)
                      (filter (cullingPasses M N (registerForRendering regs s) r')
                         (registeredIn RENDER_MODE_TRANSPARENT regs))) \<and>
         (\<not> UseCulling s \<longrightarrow>
            (\<forall>d. filter (\<lambda>n. cameraDistanceSQ M N cam n = d)
                    (renderedIn RENDER_MODE_TRANSPARENT (snd (snd (drawAll M N regs r s))))
                = filter (\<lambda>n. cameraDistanceSQ M N cam n = d)
                    (registeredIn RENDER_MODE_TRANSPARENT regs)))"
proof -
  let ?s1 = "registerForRendering regs s"
  let ?key = "\<lambda>n. - cameraDistanceSQ M N cam n"
  let ?reg = "registeredIn RENDER_MODE_TRANSPARENT regs"
  let ?drawn = "renderedIn RENDER_MODE_TRANSPARENT (snd (snd (drawAll M N regs r s)))"
  have "cameraPosition N s = Some (getAbsolutePosition N (CameraId cam))"
    using assms by (simp add: cameraPosition_def)
  then have cp: "cameraPosition N ?s1 = Some (getAbsolutePosition N (CameraId cam))"
    by (simp only: cameraPosition_registerForRendering)
  have st: "sortedTransparent M N ?s1 = sort_key ?key ?reg"
    using sortedTransparent_camera [OF cp, of M]
    by (simp add: registerForRendering_transparent cameraDistanceSQ_def)
  obtain r' where dr: "?drawn = filter (cullingPasses M N ?s1 r') (sort_key ?key ?reg)"
    using drawAll_transparent_calls [of M N regs r s] st by auto
  have "sorted (map ?key (sort_key ?key ?reg))"
    by (rule sorted_sort_key)
  then have "sorted_wrt (\<lambda>a b. ?key a \<le> ?key b) (sort_key ?key ?reg)"
    by (simp add: sorted_map)
  then have "sorted_wrt (\<lambda>a b. ?key a \<le> ?key b) ?drawn"
    unfolding dr by (rule sorted_wrt_filter)
  then have A: "sorted_wrt (\<lambda>a b. cameraDistanceSQ M N cam b \<le> cameraDistanceSQ M N cam a) ?drawn"
    by simp
  have stab: "filter (\<lambda>n. cameraDistanceSQ M N cam n = d) (sort_key ?key ?reg)
                = filter (\<lambda>n. cameraDistanceSQ M N cam n = d) ?reg" for d
  proof -
    have e: "(\<lambda>n. cameraDistanceSQ M N cam n = d) = (\<lambda>n. ?key n = - d)"
      by (rule ext) auto
    show ?thesis unfolding e by (rule sort_key_stable)
  qed
  have B: "filter (\<lambda>n. cameraDistanceSQ M N cam n = d) ?drawn
             = filter (\<lambda>n. cameraDistanceSQ M N cam n = d) (filter (cullingPasses M N ?s1 r') ?reg)" for d
  proof -
    have "filter (\<lambda>n. cameraDistanceSQ M N cam n = d) ?drawn
            = filter (cullingPasses M N ?s1 r')
                (filter (\<lambda>n. cameraDistanceSQ M N cam n = d) (sort_key ?key ?reg))"
      unfolding dr by (simp add: conj_commute)
    also have "\<dots> = filter (cullingPasses M N ?s1 r') (filter (\<lambda>n. cameraDistanceSQ M N cam n = d) ?reg)"
      by (simp only: stab)
    finally show ?thesis by (simp add: conj_commute)
  qed
  have C: "filter (\<lambda>n. cameraDistanceSQ M N cam n = d) ?drawn
             = filter (\<lambda>n. cameraDistanceSQ M N cam n = d) ?reg" if "\<not> UseCulling s" for d
  proof -
    have "cullingPasses M N ?s1 r' = (\<lambda>n. True)"
      using that by (intro ext) (simp add: cullingPasses_def registerForRendering_UseCulling
                                   split: option.splits)
    then show ?thesis using B [of d] by simp
  qed
  from A B C show ?thesis by blast
qed

theorem C6_transparent_farthest_first_stable_witness:
  "ActiveCamera exampleCamScene = Some exampleCamera \<and>
   \<not> UseCulling exampleCamScene \<and>
   map (cameraDistanceSQ exampleOps exampleNodeOps exampleCamera)
     (registeredIn RENDER_MODE_TRANSPARENT exampleTransparentRegs) = [1, 25, 25] \<and>
   renderedIn RENDER_MODE_TRANSPARENT
     (snd (snd (drawAll exampleOps exampleNodeOps exampleTransparentRegs exampleRenderer
                  exampleCamScene))) = [2, 3, 1] \<and>
   sorted_wrt (\<lambda>a b. cameraDistanceSQ exampleOps exampleNodeOps exampleCamera b
                       \<le> cameraDistanceSQ exampleOps exampleNodeOps exampleCamera a)
     (renderedIn RENDER_MODE_TRANSPARENT
        (snd (snd (drawAll exampleOps exampleNodeOps exampleTransparentRegs exampleRenderer
                     exampleCamScene))))"
proof -
  have h: "ActiveCamera exampleCamScene = Some exampleCamera"
    by (simp add: exampleCamScene_def exampleCamera_def)
  have c: "\<not> UseCulling exampleCamScene"
    by (simp add: exampleCamScene_def exampleScene_def)
  have d: "map (cameraDistanceSQ exampleOps exampleNodeOps exampleCamera)
             (registeredIn RENDER_MODE_TRANSPARENT exampleTransparentRegs) = [1, 25, 25]"
    by code_simp
  have e: "renderedIn RENDER_MODE_TRANSPARENT
        (snd (snd (drawAll exampleOps exampleNodeOps exampleTransparentRegs exampleRenderer
                     exampleCamScene))) = [2, 3, 1]"
    by code_simp
  show ?thesis
    using C6_transparent_farthest_first_stable [OF h, of exampleOps exampleNodeOps
            exampleTransparentRegs exampleRenderer] h c d e
    by simp
qed

section \<open>Properties of deferred deletion\<close>

lemma removeChild_Parent:
  "Parent (removeChild p c h x) =
     (if x = c \<and> c \<in> set (Children (h p)) then None else Parent (h x))"
  by (simp add: removeChild_def Let_def)

lemma removeChild_Children:
  "Children (removeChild p c h x) =
     (if x = p \<and> c \<in> set (Children (h p)) then remove1 c (Children (h p)) else Children (h x))"
  by (simp add: removeChild_def Let_def)

lemma removeChild_Selector:
  "Selector (removeChild p c h x) = Selector (h x)"
  by (simp add: removeChild_def Let_def)

lemma deleteEntryNode_nodes:
  "nodes (deleteEntryNode e s) =
     (case Parent (nodes s (node e)) of
        None \<Rightarrow> nodes s
      | Some p \<Rightarrow> removeChild p (node e) (nodes s))"
  by (simp add: deleteEntryNode_def Let_def split: option.splits)

lemma deleteEntryNode_CollisionWorld:
  "CollisionWorld (deleteEntryNode e s) =
     (case CollisionWorld s of
        None \<Rightarrow> None
      | Some cw \<Rightarrow>
          (case Selector (nodes s (node e)) of
             None \<Rightarrow> Some cw
           | Some sel \<Rightarrow> Some (remove1 sel cw)))"
  by (simp add: deleteEntryNode_def Let_def removeSelector_def removeChild_Selector split: option.splits)

lemma clearDeletionLoop_scene:
  "snd (snd (clearDeletionLoop d t es s)) =
     fold deleteEntryNode (filter (\<lambda>e. d \<or> timeAfterToDelete e < t) es) s"
  by (cases d; induction es arbitrary: s) (simp_all add: Let_def)

lemma clearDeletionLoop_kept:
  "fst (snd (clearDeletionLoop d t es s)) = filter (\<lambda>e. \<not> (d \<or> timeAfterToDelete e < t)) es"
  by (cases d; induction es arbitrary: s) (simp_all add: Let_def)

lemma clearDeletionLoop_ret:
  "fst (clearDeletionLoop d t es s) = (\<exists>e \<in> set es. d \<or> timeAfterToDelete e < t)"
  by (cases d; induction es arbitrary: s) (auto simp: Let_def)


lemma deleteEntryNode_Parent:
  "Parent (nodes (deleteEntryNode e s) x) =
     (if x = node e \<and> (\<exists>p. Parent (nodes s x) = Some p \<and> x \<in> set (Children (nodes s p)))
      then None else Parent (nodes s x))"
  by (auto simp: deleteEntryNode_nodes removeChild_Parent split: option.splits)

lemma deleteEntryNode_Children:
  "Children (nodes (deleteEntryNode e s) x) =
     (if Parent (nodes s (node e)) = Some x \<and> node e \<in> set (Children (nodes s x))
      then remove1 (node e) (Children (nodes s x)) else Children (nodes s x))"
  by (auto simp: deleteEntryNode_nodes removeChild_Children split: option.splits)

lemma deleteEntryNode_Selector:
  "Selector (nodes (deleteEntryNode e s) x) = Selector (nodes s x)"
  by (simp add: deleteEntryNode_nodes removeChild_Selector split: option.splits)

text \<open>Deleting entries only ever takes nodes and selectors away.\<close>

lemma fold_delete_Selector:
  "Selector (nodes (fold deleteEntryNode due s) x) = Selector (nodes s x)"
  by (induction due arbitrary: s) (simp_all add: deleteEntryNode_Selector)

lemma fold_delete_Parent_None:
  "Parent (nodes s x) = None \<Longrightarrow> Parent (nodes (fold deleteEntryNode due s) x) = None"
  by (induction due arbitrary: s) (simp_all add: deleteEntryNode_Parent)

lemma fold_delete_Children_subset:
  "set (Children (nodes (fold deleteEntryNode due s) x)) \<subseteq> set (Children (nodes s x))"
proof (induction due arbitrary: s)
  case Nil
  show ?case by simp
next
  case (Cons e due)
  have "set (Children (nodes (deleteEntryNode e s) x)) \<subseteq> set (Children (nodes s x))"
    using set_remove1_subset [of "node e" "Children (nodes s x)"]
    by (auto simp: deleteEntryNode_Children)
  with Cons.IH [of "deleteEntryNode e s"] show ?case by auto
qed

lemma fold_delete_CollisionWorld_None:
  "CollisionWorld s = None \<Longrightarrow> CollisionWorld (fold deleteEntryNode due s) = None"
  by (induction due arbitrary: s) (simp_all add: deleteEntryNode_CollisionWorld)

lemma fold_delete_CollisionWorld:
  "CollisionWorld s = Some cw \<Longrightarrow>
   \<exists>cw'. CollisionWorld (fold deleteEntryNode due s) = Some cw' \<and> set cw' \<subseteq> set cw \<and>
         (distinct cw \<longrightarrow> distinct cw')"
proof (induction due arbitrary: s cw)
  case Nil
  then show ?case by simp
next
  case (Cons e due)
  obtain c1 where c1: "CollisionWorld (deleteEntryNode e s) = Some c1"
    and s1: "set c1 \<subseteq> set cw" and d1: "distinct cw \<longrightarrow> distinct c1"
    using Cons.prems set_remove1_subset [of _ cw]
    by (cases "Selector (nodes s (node e))")
       (auto simp: deleteEntryNode_CollisionWorld)
  from Cons.IH [OF c1] obtain cw' where
    "CollisionWorld (fold deleteEntryNode due (deleteEntryNode e s)) = Some cw'"
    "set cw' \<subseteq> set c1" "distinct c1 \<longrightarrow> distinct cw'"
    by blast
  with s1 d1 show ?case by auto
qed

text \<open>Entries of other nodes leave a node attached.\<close>

lemma fold_delete_others:
  assumes "\<forall>e \<in> set due. node e \<noteq> n"
    and "Parent (nodes s n) = Some p"
    and "n \<in> set (Children (nodes s p))"
    and "distinct (Children (nodes s p))"
  shows "Parent (nodes (fold deleteEntryNode due s) n) = Some p \<and>
         n \<in> set (Children (nodes (fold deleteEntryNode due s) p)) \<and>
         distinct (Children (nodes (fold deleteEntryNode due s) p))"
  using assms
proof (induction due arbitrary: s)
  case Nil
  then show ?case by simp
next
  case (Cons e due)
  have ne: "node e \<noteq> n" using Cons.prems(1) by simp
  have a: "Parent (nodes (deleteEntryNode e s) n) = Some p"
    using ne Cons.prems(2) by (simp add: deleteEntryNode_Parent)
  have b: "n \<in> set (Children (nodes (deleteEntryNode e s) p))"
    using ne Cons.prems(3) by (simp add: deleteEntryNode_Children)
  have c: "distinct (Children (nodes (deleteEntryNode e s) p))"
    using Cons.prems(4) by (simp add: deleteEntryNode_Children)
  have "\<forall>e \<in> set due. node e \<noteq> n" using Cons.prems(1) by simp
  from Cons.IH [OF this a b c] show ?case by simp
qed

text \<open>A due entry of an attached node detaches it and takes its selector away.\<close>

lemma fold_delete_due:
  assumes "\<exists>e \<in> set due. node e = n"
    and "Parent (nodes s n) = Some p"
    and "n \<in> set (Children (nodes s p))"
    and "distinct (Children (nodes s p))"
  shows "Parent (nodes (fold deleteEntryNode due s) n) = None \<and>
         n \<notin> set (Children (nodes (fold deleteEntryNode due s) p))"
  using assms
proof (induction due arbitrary: s)
  case Nil
  then show ?case by simp
next
  case (Cons e due)
  show ?case
  proof (cases "node e = n")
    case True
    have a: "Parent (nodes (deleteEntryNode e s) n) = None"
      using True Cons.prems(2,3) by (simp add: deleteEntryNode_Parent)
    have b: "n \<notin> set (Children (nodes (deleteEntryNode e s) p))"
      using True Cons.prems(2,3,4) by (simp add: deleteEntryNode_Children)
    from fold_delete_Parent_None [OF a, of due]
         fold_delete_Children_subset [of due "deleteEntryNode e s" p] b
    show ?thesis by auto
  next
    case False
    have a: "Parent (nodes (deleteEntryNode e s) n) = Some p"
      using False Cons.prems(2) by (simp add: deleteEntryNode_Parent)
    have b: "n \<in> set (Children (nodes (deleteEntryNode e s) p))"
      using False Cons.prems(3) by (simp add: deleteEntryNode_Children)
    have c: "distinct (Children (nodes (deleteEntryNode e s) p))"
      using Cons.prems(4) by (simp add: deleteEntryNode_Children)
    have "\<exists>e \<in> set due. node e = n" using False Cons.prems(1) by auto
    from Cons.IH [OF this a b c] show ?thesis by simp
  qed
qed

lemma fold_delete_due_selector:
  assumes "\<exists>e \<in> set due. node e = n"
    and "CollisionWorld s = Some cw" and "distinct cw"
    and "Selector (nodes s n) = Some sel"
  shows "\<exists>cw'. CollisionWorld (fold deleteEntryNode due s) = Some cw' \<and> sel \<notin> set cw'"
  using assms
proof (induction due arbitrary: s cw)
  case Nil
  then show ?case by simp
next
  case (Cons e due)
  show ?case
  proof (cases "node e = n")
    case True
    have c1: "CollisionWorld (deleteEntryNode e s) = Some (remove1 sel cw)"
      using True Cons.prems(2,4) by (simp add: deleteEntryNode_CollisionWorld)
    from fold_delete_CollisionWorld [OF c1, of due] obtain cw' where
      "CollisionWorld (fold deleteEntryNode due (deleteEntryNode e s)) = Some cw'"
      "set cw' \<subseteq> set (remove1 sel cw)"
      by blast
    moreover have "sel \<notin> set (remove1 sel cw)"
      using Cons.prems(3) by simp
    ultimately show ?thesis by auto
  next
    case False
    obtain c1 where c1: "CollisionWorld (deleteEntryNode e s) = Some c1" and d1: "distinct c1"
      using Cons.prems(2,3)
      by (cases "Selector (nodes s (node e))") (auto simp: deleteEntryNode_CollisionWorld)
    have sl: "Selector (nodes (deleteEntryNode e s) n) = Some sel"
      using Cons.prems(4) by (simp add: deleteEntryNode_Selector)
    have "\<exists>e \<in> set due. node e = n" using False Cons.prems(1) by auto
    from Cons.IH [OF this c1 d1 sl] show ?thesis by simp
  qed
qed

lemma doAnimate_graph:
  "\<exists>s2 :: 'm Scene. nodes s2 = nodes (s :: 'm Scene) \<and> CollisionWorld s2 = CollisionWorld s \<and>
     nodes (fst (snd (doAnimate M inp r s)))
       = nodes (fold deleteEntryNode (filter (\<lambda>e. timeAfterToDelete e < now inp) (DeletionList s)) s2) \<and>
     CollisionWorld (fst (snd (doAnimate M inp r s)))
       = CollisionWorld (fold deleteEntryNode (filter (\<lambda>e. timeAfterToDelete e < now inp) (DeletionList s)) s2) \<and>
     DeletionList (fst (snd (doAnimate M inp r s)))
       = filter (\<lambda>e. \<not> timeAfterToDelete e < now inp) (DeletionList s)"
proof -
  let ?s2 = "(if StartTime s = 0 then s\<lparr>StartTime := now inp\<rparr> else s)\<lparr>TheSkyBoxSceneNode := None\<rparr>"
  let ?due = "filter (\<lambda>e. timeAfterToDelete e < now inp) (DeletionList s)"
  have l: "DeletionList ?s2 = DeletionList s" by simp
  have c: "snd (clearDeletionList False (now inp) ?s2)
             = (fold deleteEntryNode ?due ?s2)
                 \<lparr>DeletionList := filter (\<lambda>e. \<not> timeAfterToDelete e < now inp) (DeletionList s)\<rparr>"
  proof (cases "DeletionList s = []")
    case True
    then show ?thesis by (simp add: clearDeletionList_def)
  next
    case False
    then show ?thesis
      by (simp add: clearDeletionList_def Let_def clearDeletionLoop_scene clearDeletionLoop_kept l)
  qed
  have s2: "nodes ?s2 = nodes s" "CollisionWorld ?s2 = CollisionWorld s" by simp_all
  have "fst (snd (doAnimate M inp r s)) = snd (clearDeletionList False (now inp) ?s2) \<or>
        fst (snd (doAnimate M inp r s))
          = (snd (clearDeletionList False (now inp) ?s2))\<lparr>ForceRedrawThisFrame := False\<rparr>"
    by (simp add: doAnimate_def Let_def)
  then have "nodes (fst (snd (doAnimate M inp r s))) = nodes (snd (clearDeletionList False (now inp) ?s2))"
    "CollisionWorld (fst (snd (doAnimate M inp r s)))
       = CollisionWorld (snd (clearDeletionList False (now inp) ?s2))"
    "DeletionList (fst (snd (doAnimate M inp r s)))
       = DeletionList (snd (clearDeletionList False (now inp) ?s2))"
    by auto
  then have f: "nodes (fst (snd (doAnimate M inp r s))) = nodes (fold deleteEntryNode ?due ?s2)"
    "CollisionWorld (fst (snd (doAnimate M inp r s))) = CollisionWorld (fold deleteEntryNode ?due ?s2)"
    "DeletionList (fst (snd (doAnimate M inp r s)))
       = filter (\<lambda>e. \<not> timeAfterToDelete e < now inp) (DeletionList s)"
    unfolding c by simp_all
  from s2 f show ?thesis by (intro exI [of _ ?s2] conjI)
qed

lemma tick_before_deadline:
  fixes s :: "'m Scene"
  assumes "attachedAndQueued n p deadline s" and "now inp \<le> deadline"
  shows "attachedAndQueued n p deadline (fst (snd (doAnimate M inp r s)))"
proof -
  let ?due = "filter (\<lambda>e. timeAfterToDelete e < now inp) (DeletionList s)"
  obtain s2 :: "'m Scene" where s2: "nodes s2 = nodes s"
    and n': "nodes (fst (snd (doAnimate M inp r s))) = nodes (fold deleteEntryNode ?due s2)"
    and l': "DeletionList (fst (snd (doAnimate M inp r s)))
               = filter (\<lambda>e. \<not> timeAfterToDelete e < now inp) (DeletionList s)"
    using doAnimate_graph [of s M inp r] by blast
  have others: "\<forall>e \<in> set ?due. node e \<noteq> n"
    using assms by (auto simp: attachedAndQueued_def)
  have "Parent (nodes s2 n) = Some p" "n \<in> set (Children (nodes s2 p))"
       "distinct (Children (nodes s2 p))"
    using assms(1) s2 by (simp_all add: attachedAndQueued_def)
  from fold_delete_others [OF others this]
  have g: "Parent (nodes (fold deleteEntryNode ?due s2) n) = Some p \<and>
           n \<in> set (Children (nodes (fold deleteEntryNode ?due s2) p)) \<and>
           distinct (Children (nodes (fold deleteEntryNode ?due s2) p))" .
  have q: "(\<exists>e \<in> set (filter (\<lambda>e. \<not> timeAfterToDelete e < now inp) (DeletionList s)). node e = n) \<and>
           (\<forall>e \<in> set (filter (\<lambda>e. \<not> timeAfterToDelete e < now inp) (DeletionList s)).
               node e = n \<longrightarrow> timeAfterToDelete e = deadline)"
    using assms by (auto simp: attachedAndQueued_def)
  from g q show ?thesis
    unfolding attachedAndQueued_def n' l' by blast
qed

lemma tick_before_deadline_selector:
  fixes s :: "'m Scene"
  assumes "indexedOnce n sel s"
  shows "indexedOnce n sel (fst (snd (doAnimate M inp r s)))"
proof -
  let ?due = "filter (\<lambda>e. timeAfterToDelete e < now inp) (DeletionList s)"
  obtain s2 :: "'m Scene" where s2: "nodes s2 = nodes s" "CollisionWorld s2 = CollisionWorld s"
    and n': "nodes (fst (snd (doAnimate M inp r s))) = nodes (fold deleteEntryNode ?due s2)"
    and c': "CollisionWorld (fst (snd (doAnimate M inp r s)))
               = CollisionWorld (fold deleteEntryNode ?due s2)"
    using doAnimate_graph [of s M inp r] by blast
  obtain cw where cw: "CollisionWorld s2 = Some cw" "distinct cw"
    using assms s2 by (auto simp: indexedOnce_def)
  from fold_delete_CollisionWorld [OF cw(1), of ?due] cw(2)
  have "\<exists>cw'. CollisionWorld (fold deleteEntryNode ?due s2) = Some cw' \<and> distinct cw'"
    by blast
  moreover have "Selector (nodes (fold deleteEntryNode ?due s2) n) = Some sel"
    using assms s2 by (simp add: fold_delete_Selector indexedOnce_def)
  ultimately show ?thesis
    unfolding indexedOnce_def n' c' by blast
qed

lemma tick_after_deadline:
  fixes s :: "'m Scene"
  assumes "attachedAndQueued n p deadline s" and "deadline < now inp"
  shows "Parent (nodes (fst (snd (doAnimate M inp r s))) n) = None \<and>
         n \<notin> set (Children (nodes (fst (snd (doAnimate M inp r s))) p)) \<and>
         (\<forall>e \<in> set (DeletionList (fst (snd (doAnimate M inp r s)))). node e \<noteq> n) \<and>
         (\<forall>sel. indexedOnce n sel s \<longrightarrow>
            (\<exists>cw'. CollisionWorld (fst (snd (doAnimate M inp r s))) = Some cw' \<and> sel \<notin> set cw'))"
proof -
  let ?due = "filter (\<lambda>e. timeAfterToDelete e < now inp) (DeletionList s)"
  obtain s2 :: "'m Scene" where s2: "nodes s2 = nodes s" "CollisionWorld s2 = CollisionWorld s"
    and n': "nodes (fst (snd (doAnimate M inp r s))) = nodes (fold deleteEntryNode ?due s2)"
    and c': "CollisionWorld (fst (snd (doAnimate M inp r s)))
               = CollisionWorld (fold deleteEntryNode ?due s2)"
    and l': "DeletionList (fst (snd (doAnimate M inp r s)))
               = filter (\<lambda>e. \<not> timeAfterToDelete e < now inp) (DeletionList s)"
    using doAnimate_graph [of s M inp r] by blast
  have due: "\<exists>e \<in> set ?due. node e = n"
    using assms by (auto simp: attachedAndQueued_def)
  have "Parent (nodes s2 n) = Some p" "n \<in> set (Children (nodes s2 p))"
       "distinct (Children (nodes s2 p))"
    using assms(1) s2 by (simp_all add: attachedAndQueued_def)
  from fold_delete_due [OF due this]
  have g: "Parent (nodes (fold deleteEntryNode ?due s2) n) = None \<and>
           n \<notin> set (Children (nodes (fold deleteEntryNode ?due s2) p))" .
  have q: "\<forall>e \<in> set (filter (\<lambda>e. \<not> timeAfterToDelete e < now inp) (DeletionList s)). node e \<noteq> n"
    using assms by (auto simp: attachedAndQueued_def)
  have c: "\<exists>cw'. CollisionWorld (fold deleteEntryNode ?due s2) = Some cw' \<and> sel \<notin> set cw'"
    if h: "indexedOnce n sel s" for sel
  proof -
    obtain cw where "CollisionWorld s2 = Some cw" "distinct cw" "Selector (nodes s2 n) = Some sel"
      using h s2 by (auto simp: indexedOnce_def)
    from fold_delete_due_selector [OF due this] show ?thesis .
  qed
  from g q c show ?thesis
    unfolding n' c' l' by blast
qed

lemma runTicks_snoc:
  "\<exists>r'. runTicks M (inps @ [inp]) r s = fst (snd (doAnimate M inp r' (runTicks M inps r s)))"
  by (induction inps arbitrary: r s) auto

lemma runTicks_before_deadline:
  assumes "attachedAndQueued n p deadline s" and "\<forall>i \<in> set inps. now i \<le> deadline"
  shows "attachedAndQueued n p deadline (runTicks M inps r s)"
  using assms
  by (induction inps arbitrary: r s) (simp_all add: tick_before_deadline)

lemma runTicks_selector:
  "indexedOnce n sel s \<Longrightarrow> indexedOnce n sel (runTicks M inps r s)"
  by (induction inps arbitrary: r s) (simp_all add: tick_before_deadline_selector)

lemma addToDeletionQueue_attachedAndQueued:
  assumes "\<forall>e \<in> set (DeletionList s). node e \<noteq> n"
    and "Parent (nodes s n) = Some p" and "n \<in> set (Children (nodes s p))"
    and "distinct (Children (nodes s p))"
  shows "attachedAndQueued n p (d + t0) (addToDeletionQueue n d t0 s)"
  using assms by (auto simp: attachedAndQueued_def addToDeletionQueue_def)

text \<open>
  C7, as amended. A node that is a child of its parent and not yet in the deletion queue
  is queued at time \<open>t0\<close> with delay \<open>d\<close>. On every tick whose time is at or before
  \<open>t0 + d\<close> it stays attached to its parent; on the first tick whose time is strictly
  after \<open>t0 + d\<close> the flush detaches it, and takes its selector out of the collision
  world when the scene has one and the node has a selector (indexed there once).
\<close>

theorem C7_detached_on_first_tick_after_deadline:
  assumes "\<forall>e \<in> set (DeletionList s). node e \<noteq> n"
    and "Parent (nodes s n) = Some p"
    and "n \<in> set (Children (nodes s p))"
    and "distinct (Children (nodes s p))"
    and "\<forall>i \<in> set before. now i \<le> t0 + d"
    and "t0 + d < now after"
  shows "Parent (nodes (runTicks M before r (addToDeletionQueue n d t0 s)) n) = Some p \<and>
         n \<in> set (Children (nodes (runTicks M before r (addToDeletionQueue n d t0 s)) p)) \<and>
         Parent (nodes (runTicks M (before @ [after]) r (addToDeletionQueue n d t0 s)) n) = None \<and>
         n \<notin> set (Children (nodes (runTicks M (before @ [after]) r (addToDeletionQueue n d t0 s)) p)) \<and>
         (\<forall>sel cw. Selector (nodes s n) = Some sel \<and> CollisionWorld s = Some cw \<and> distinct cw \<longrightarrow>
            (\<exists>cw'. CollisionWorld (runTicks M (before @ [after]) r (addToDeletionQueue n d t0 s)) = Some cw'
                  \<and> sel \<notin> set cw'))"
proof -
  let ?s1 = "addToDeletionQueue n d t0 s"
  let ?sb = "runTicks M before r ?s1"
  have q: "attachedAndQueued n p (d + t0) ?s1"
    using assms(1-4) by (rule addToDeletionQueue_attachedAndQueued)
  have b: "attachedAndQueued n p (d + t0) ?sb"
    using q assms(5) by (intro runTicks_before_deadline) (simp_all add: add.commute)
  obtain r' where e: "runTicks M (before @ [after]) r ?s1 = fst (snd (doAnimate M after r' ?sb))"
    using runTicks_snoc [of M before after r ?s1] by blast
  have late: "d + t0 < now after" using assms(6) by simp
  note a = tick_after_deadline [OF b late, of M r']
  have sel: "\<exists>cw'. CollisionWorld (fst (snd (doAnimate M after r' ?sb))) = Some cw' \<and> sel \<notin> set cw'"
    if "Selector (nodes s n) = Some sel" "CollisionWorld s = Some cw" "distinct cw" for sel cw
  proof -
    have "indexedOnce n sel ?s1"
      using that by (auto simp: indexedOnce_def addToDeletionQueue_def)
    then have "indexedOnce n sel ?sb" by (rule runTicks_selector)
    with a show ?thesis by blast
  qed
  have b1: "Parent (nodes ?sb n) = Some p" "n \<in> set (Children (nodes ?sb p))"
    using b by (simp_all add: attachedAndQueued_def)
  have a1: "Parent (nodes (fst (snd (doAnimate M after r' ?sb))) n) = None"
    "n \<notin> set (Children (nodes (fst (snd (doAnimate M after r' ?sb))) p))"
    using a by simp_all
  show ?thesis
    unfolding e using b1 a1 sel by blast
qed

theorem C7_detached_on_first_tick_after_deadline_witness:
  "Parent (nodes (runTicks exampleOps [exampleTick 1200, exampleTick 1500] None
                    (addToDeletionQueue 1 500 1000 exampleGraphScene)) 1) = Some 0 \<and>
   Parent (nodes (runTicks exampleOps ([exampleTick 1200, exampleTick 1500] @ [exampleTick 1501]) None
                    (addToDeletionQueue 1 500 1000 exampleGraphScene)) 1) = None \<and>
   (\<exists>cw'. CollisionWorld (runTicks exampleOps ([exampleTick 1200, exampleTick 1500] @ [exampleTick 1501])
                             None (addToDeletionQueue 1 500 1000 exampleGraphScene)) = Some cw'
          \<and> 7 \<notin> set cw')"
proof -
  have h1: "\<forall>e \<in> set (DeletionList exampleGraphScene). node e \<noteq> 1"
    by (simp add: exampleGraphScene_def exampleScene_def)
  have h2: "Parent (nodes exampleGraphScene 1) = Some 0"
    by (simp add: exampleGraphScene_def)
  have h3: "1 \<in> set (Children (nodes exampleGraphScene 0))"
    by (simp add: exampleGraphScene_def)
  have h4: "distinct (Children (nodes exampleGraphScene 0))"
    by (simp add: exampleGraphScene_def)
  have h5: "\<forall>i \<in> set [exampleTick 1200, exampleTick 1500]. now i \<le> 1000 + 500"
    by (simp add: exampleTick_def)
  have h6: "(1000::int) + 500 < now (exampleTick 1501)"
    by (simp add: exampleTick_def)
  have c: "Selector (nodes exampleGraphScene 1) = Some 7 \<and>
           CollisionWorld exampleGraphScene = Some [7] \<and> distinct [7::nat]"
    by (simp add: exampleGraphScene_def)
  show ?thesis
    using C7_detached_on_first_tick_after_deadline [OF h1 h2 h3 h4 h5 h6, of exampleOps None] c
    by blast
qed

text \<open>
  The claim as stated has the node detached on the first tick at or after \<open>t0 + d\<close>.
  Queued at time 1000 with a delay of 500, the node is still attached, and still
  queued, after a tick at time 1500.
\<close>

theorem C7_tick_at_deadline_counterexample:
  "Parent (nodes (runTicks exampleOps [exampleTick 1500] None
                    (addToDeletionQueue 1 500 1000 exampleGraphScene)) 1) = Some 0 \<and>
   map node (DeletionList (runTicks exampleOps [exampleTick 1500] None
                             (addToDeletionQueue 1 500 1000 exampleGraphScene))) = [1] \<and>
   CollisionWorld (runTicks exampleOps [exampleTick 1500] None
                     (addToDeletionQueue 1 500 1000 exampleGraphScene)) = Some [7]"
  by code_simp

section \<open>Properties of the array loops\<close>

lemma length_writeAt: "length (writeAt arr b vs) = length arr"
  by (induction vs arbitrary: arr b) simp_all

lemma writeAt_conv:
  "b + length vs \<le> length arr \<Longrightarrow> writeAt arr b vs = take b arr @ vs @ drop (b + length vs) arr"
proof (induction vs arbitrary: arr b)
  case Nil
  then show ?case by simp
next
  case (Cons v vs)
  have "writeAt (arr[b := v]) (Suc b) vs
          = take (Suc b) (arr[b := v]) @ vs @ drop (Suc b + length vs) (arr[b := v])"
    using Cons.prems by (intro Cons.IH) simp
  also have "take (Suc b) (arr[b := v]) = take b arr @ [v]"
    using Cons.prems by (simp add: take_Suc_conv_app_nth)
  finally show ?case by simp
qed

lemma length_fillPerVertex: "length (fillPerVertex k f vs arr) = length arr"
proof -
  have "length (fold (\<lambda>i a. writeAt a (i * k) (f (vs ! i))) is arr) = length arr" for "is"
    by (induction "is" arbitrary: arr) (simp_all add: length_writeAt)
  then show ?thesis by (simp add: fillPerVertex_def)
qed

lemma length_concat_fixed:
  "\<forall>v. length (f v) = k \<Longrightarrow> length (concat (map f vs)) = k * length vs"
  by (induction vs) simp_all

lemma fill_prefix:
  assumes "\<forall>v. length (f v) = k" and "n \<le> length vs" and "k * n \<le> length arr"
  shows "fold (\<lambda>i a. writeAt a (i * k) (f (vs ! i))) [0..<n] arr
           = concat (map f (take n vs)) @ drop (k * n) arr"
  using assms(2,3)
proof (induction n)
  case 0
  then show ?case by simp
next
  case (Suc n)
  let ?A = "concat (map f (take n vs)) @ drop (k * n) arr"
  have la: "length (concat (map f (take n vs))) = k * n"
    using Suc.prems assms(1) by (simp add: length_concat_fixed)
  have ih: "fold (\<lambda>i a. writeAt a (i * k) (f (vs ! i))) [0..<n] arr = ?A"
    using Suc by simp
  have fit: "n * k + length (f (vs ! n)) \<le> length ?A"
    using Suc.prems assms(1) la by (simp add: algebra_simps)
  have "fold (\<lambda>i a. writeAt a (i * k) (f (vs ! i))) [0..<Suc n] arr
          = writeAt ?A (n * k) (f (vs ! n))"
    using ih by simp
  also have "\<dots> = take (n * k) ?A @ f (vs ! n) @ drop (n * k + length (f (vs ! n))) ?A"
    using fit by (rule writeAt_conv)
  also have "take (n * k) ?A = concat (map f (take n vs))"
    using la by (simp add: mult.commute)
  also have "drop (n * k + length (f (vs ! n))) ?A = drop (k * Suc n) arr"
    using la assms(1) by (simp add: algebra_simps)
  finally show ?case
    using Suc.prems by (simp add: take_Suc_conv_app_nth)
qed

lemma fillPerVertex_conv:
  assumes "\<forall>v. length (f v) = k" and "k * length vs \<le> length arr"
  shows "fillPerVertex k f vs arr = concat (map f vs) @ drop (k * length vs) arr"
  using fill_prefix [OF assms(1) order_refl assms(2)] by (simp add: fillPerVertex_def)

lemma fillPerVertex_new:
  assumes "\<forall>v. length (f v) = k"
  shows "fillPerVertex k f vs (newFloat32Array (length vs * k)) = concat (map f vs)"
  using fillPerVertex_conv [OF assms, of vs "newFloat32Array (length vs * k)"]
  by (simp add: newFloat32Array_def mult.commute)

lemma comps_length:
  "\<forall>v. length (posComps v) = 3" "\<forall>v. length (normalComps v) = 3"
  "\<forall>v. length (tcoordComps v) = 2" "\<forall>v. length (tcoord2Comps v) = 2"
  "\<forall>v. length (colorComps M v) = 4" "\<forall>v. length (vectComps v) = 3"
  by (simp_all add: posComps_def normalComps_def tcoordComps_def tcoord2Comps_def
        colorComps_def vectComps_def)

text \<open>The index loop writes every complete triangle with its last two indices exchanged.\<close>

lemma length_rewindLoop: "length (rewindLoop idx n j arr) = length arr"
proof (induction idx n j arr rule: rewindLoop.induct)
  case (1 idx n j arr)
  show ?case
  proof (cases "j < n")
    case True
    then show ?thesis using 1 by (subst rewindLoop.simps) simp
  next
    case False
    then show ?thesis by (subst rewindLoop.simps) simp
  qed
qed

lemma rewindLoop_nth:
  assumes "length arr = n" and "3 dvd j" and "k < n"
  shows "rewindLoop idx n j arr ! k =
           (if k < j then arr ! k
            else if k mod 3 = 0 then toUint16 (jsGet idx k)
            else if k mod 3 = 1 then toUint16 (jsGet idx (k + 1))
            else toUint16 (jsGet idx (k - 1)))"
  using assms
proof (induction idx n j arr rule: rewindLoop.induct)
  case (1 idx n j arr)
  show ?case
  proof (cases "j < n")
    case False
    then show ?thesis using "1.prems" by (subst rewindLoop.simps) simp
  next
    case True
    let ?arr' = "arr[j + 0 := toUint16 (jsGet idx (j + 0)),
                     j + 1 := toUint16 (jsGet idx (j + 2)),
                     j + 2 := toUint16 (jsGet idx (j + 1))]"
    have ih: "rewindLoop idx n (j + 3) ?arr' ! k =
           (if k < j + 3 then ?arr' ! k
            else if k mod 3 = 0 then toUint16 (jsGet idx k)
            else if k mod 3 = 1 then toUint16 (jsGet idx (k + 1))
            else toUint16 (jsGet idx (k - 1)))"
      using "1.prems" True by (intro "1.IH") simp_all
    have j3: "j mod 3 = 0" using "1.prems"(2) by presburger
    have step: "rewindLoop idx n j arr = rewindLoop idx n (j + 3) ?arr'"
      using True by (subst rewindLoop.simps) simp
    consider "k < j" | "k = j" | "k = j + 1" | "k = j + 2" | "j + 3 \<le> k" by linarith
    then show ?thesis
    proof cases
      case 1
      then show ?thesis unfolding step ih by simp
    next
      case 2
      then show ?thesis unfolding step ih using "1.prems" j3 by simp
    next
      case 3
      have "(j + 1) mod 3 = 1" using j3 by presburger
      then show ?thesis unfolding step ih using 3 "1.prems" by simp
    next
      case 4
      have "(j + 2) mod 3 = 2" using j3 by presburger
      then show ?thesis unfolding step ih using 4 "1.prems" by simp
    next
      case 5
      then show ?thesis unfolding step ih by simp
    qed
  qed
qed

lemma rewound_triangle:
  assumes "3 * t + 2 < length idx"
  shows "rewindLoop idx (length idx) 0 (newUint16Array (length idx)) ! (3 * t) = word_of_int (idx ! (3 * t))"
    and "rewindLoop idx (length idx) 0 (newUint16Array (length idx)) ! (3 * t + 1) = word_of_int (idx ! (3 * t + 2))"
    and "rewindLoop idx (length idx) 0 (newUint16Array (length idx)) ! (3 * t + 2) = word_of_int (idx ! (3 * t + 1))"
proof -
  have l: "length (newUint16Array (length idx)) = length idx" by (simp add: newUint16Array_def)
  have m: "(3 * t) mod 3 = 0" "(3 * t + 1) mod 3 = 1" "(3 * t + 2) mod 3 = 2" by presburger+
  show "rewindLoop idx (length idx) 0 (newUint16Array (length idx)) ! (3 * t) = word_of_int (idx ! (3 * t))"
    using assms m by (subst rewindLoop_nth [OF l]) (simp_all add: toUint16_def jsGet_def)
  show "rewindLoop idx (length idx) 0 (newUint16Array (length idx)) ! (3 * t + 1) = word_of_int (idx ! (3 * t + 2))"
    using assms m by (subst rewindLoop_nth [OF l]) (simp_all add: toUint16_def jsGet_def)
  show "rewindLoop idx (length idx) 0 (newUint16Array (length idx)) ! (3 * t + 2) = word_of_int (idx ! (3 * t + 1))"
    using assms m by (subst rewindLoop_nth [OF l]) (simp_all add: toUint16_def jsGet_def)
qed

section \<open>Properties of creating and updating a device resource\<close>

lemma createAndFill_simps:
  "fst (createAndFill t d u g) = nextBuffer g"
  "nextBuffer (snd (createAndFill t d u g)) = Suc (nextBuffer g)"
  "calls (snd (createAndFill t d u g)) = calls g"
  "bufferContents (snd (createAndFill t d u g)) h
     = (if h = nextBuffer g then Some d else bufferContents g h)"
  by (cases t; simp add: createAndFill_def createBuffer_def bufferData_def bindBuffer_def
        binding_def bufferContents_def Let_def)+

lemma bindBuffer_simps:
  "nextBuffer (bindBuffer t h g) = nextBuffer g"
  "calls (bindBuffer t h g) = calls g"
  "bufferContents (bindBuffer t h g) = bufferContents g"
  "bufferStore (bindBuffer t h g) = bufferStore g"
  "elementBinding (bindBuffer ARRAY_BUFFER h g) = elementBinding g"
  "elementBinding (bindBuffer ELEMENT_ARRAY_BUFFER h g) = h"
  by (cases t; simp add: bindBuffer_def bufferContents_def fun_eq_iff)+

lemma bufferSubData_simps:
  "nextBuffer (bufferSubData t d g) = nextBuffer g"
  "calls (bufferSubData t d g) = calls g"
  by (simp_all add: bufferSubData_def split: option.splits payload.splits)

text \<open>What \<open>createRendererNativeArray\<close> makes of a buffer without a device resource.\<close>

lemma tangentArrays_ok:
  "tangentsCoverVertices buf \<Longrightarrow> tangentArrays buf (length (Vertices buf)) = Inr (tangentData buf)"
proof -
  have f: "fillPerVertex 3 vectComps (take n xs) (newFloat32Array (n * 3))
             = concat (map vectComps (take n xs))" if "n \<le> length xs" for n and xs :: "Vect3d list"
    using fillPerVertex_new [OF comps_length(6), of "take n xs"] that by simp
  show "tangentsCoverVertices buf \<Longrightarrow> ?thesis"
    by (auto simp: tangentsCoverVertices_def tangentArrays_def tangentData_def f split: option.splits)
qed

lemma uploadNativeArray_fields:
  "positionsArray (fst (uploadNativeArray pa t1 t2 na tb ca ia ic len g)) = pa"
  "colorArray (fst (uploadNativeArray pa t1 t2 na tb ca ia ic len g)) = ca"
  "indexCount (fst (uploadNativeArray pa t1 t2 na tb ca ia ic len g)) = ic"
  "vertexCount (fst (uploadNativeArray pa t1 t2 na tb ca ia ic len g)) = len"
  "(tangentBuffer (fst (uploadNativeArray pa t1 t2 na tb ca ia ic len g)) \<noteq> None \<and>
    binormalBuffer (fst (uploadNativeArray pa t1 t2 na tb ca ia ic len g)) \<noteq> None) = (tb \<noteq> None)"
  by (cases tb; simp add: uploadNativeArray_def Let_def)+

lemma uploadNativeArray_context:
  "calls (snd (uploadNativeArray pa t1 t2 na tb ca ia ic len g)) = calls g"
  "nextBuffer (snd (uploadNativeArray pa t1 t2 na tb ca ia ic len g))
     = nextBuffer g + (case tb of None \<Rightarrow> 6 | Some arrs \<Rightarrow> 8)"
  "elementBinding (snd (uploadNativeArray pa t1 t2 na tb ca ia ic len g)) = None"
  by (cases tb; simp add: uploadNativeArray_def Let_def createAndFill_simps bindBuffer_simps)+

lemma uploadNativeArray_handles:
  "handles (fst (uploadNativeArray pa t1 t2 na tb ca ia ic len g))
     = map (\<lambda>k. nextBuffer g + k) [0..<(case tb of None \<Rightarrow> 6 | Some arrs \<Rightarrow> 8)]"
  by (cases tb; simp add: uploadNativeArray_def Let_def createAndFill_simps bindBuffer_simps
        handles_def upt_rec)

lemma uploadNativeArray_contents:
  "bufferContents (snd (uploadNativeArray pa t1 t2 na tb ca ia ic len g))
     (indexBuffer (fst (uploadNativeArray pa t1 t2 na tb ca ia ic len g))) = Some (ShortData ia)"
  "deviceContents (snd (uploadNativeArray pa t1 t2 na tb ca ia ic len g))
     (fst (uploadNativeArray pa t1 t2 na tb ca ia ic len g))
     = [Some (FloatData pa), Some (FloatData t1), Some (FloatData t2), Some (FloatData na)] @
       (case tb of None \<Rightarrow> [] | Some arrs \<Rightarrow> [Some (FloatData (fst arrs)), Some (FloatData (snd arrs))]) @
       [Some (FloatData ca), Some (ShortData ia)]"
  "h < nextBuffer g \<Longrightarrow>
     bufferContents (snd (uploadNativeArray pa t1 t2 na tb ca ia ic len g)) h = bufferContents g h"
  by (cases tb; simp add: uploadNativeArray_def Let_def createAndFill_simps bindBuffer_simps
        deviceContents_def handles_def)+

lemma createRendererNativeArray_new:
  assumes "RendererNativeArray buf = None" and "tangentsCoverVertices buf"
  shows "createRendererNativeArray M buf g
           = Inr (buf\<lparr>RendererNativeArray := Some (fst (freshResource M buf g)),
                      OnlyPositionsChanged := False, OnlyUpdateBufferIfPossible := False\<rparr>,
                  snd (freshResource M buf g))"
  using assms
  by (simp add: createRendererNativeArray_def Let_def tangentArrays_ok freshResource_def
        rewoundIndices_def
        fillPerVertex_new [OF comps_length(1)] fillPerVertex_new [OF comps_length(2)]
        fillPerVertex_new [OF comps_length(3)] fillPerVertex_new [OF comps_length(4)]
        fillPerVertex_new [OF comps_length(5)])


section \<open>Properties of drawing\<close>

lemma drawCounts_append: "drawCounts (xs @ ys) = drawCounts xs @ drawCounts ys"
  by (induction xs rule: drawCounts.induct) simp_all

lemma drawCounts_lightCalls: "drawCounts (lightCalls M pr uw uo r) = []"
  by (simp add: lightCalls_def Let_def split: option.splits)

lemma fold_glCall_simps:
  "calls (fold glCall cs g) = calls g @ cs"
  "nextBuffer (fold glCall cs g) = nextBuffer g"
  "bufferStore (fold glCall cs g) = bufferStore g"
  "arrayBinding (fold glCall cs g) = arrayBinding g"
  "elementBinding (fold glCall cs g) = elementBinding g"
  by (induction cs arbitrary: g; simp add: glCall_def)+

lemma glCall_simps:
  "calls (glCall c g) = calls g @ [c]"
  "nextBuffer (glCall c g) = nextBuffer g"
  "bufferStore (glCall c g) = bufferStore g"
  "arrayBinding (glCall c g) = arrayBinding g"
  "elementBinding (glCall c g) = elementBinding g"
  by (simp_all add: glCall_def)

lemma bindBuffer_bindings:
  "arrayBinding (bindBuffer ARRAY_BUFFER h g) = h"
  "arrayBinding (bindBuffer ELEMENT_ARRAY_BUFFER h g) = arrayBinding g"
  by (simp_all add: bindBuffer_def)

lemma uniformMatrix4fv_simps:
  "drawCounts (calls (uniformMatrix4fv loc m g)) = drawCounts (calls g)"
  "nextBuffer (uniformMatrix4fv loc m g) = nextBuffer g"
  "bufferStore (uniformMatrix4fv loc m g) = bufferStore g"
  "elementBinding (uniformMatrix4fv loc m g) = elementBinding g"
  by (cases loc; simp add: uniformMatrix4fv_def glCall_simps drawCounts_append)+

lemma attributes_simps:
  "drawCounts (calls (vertexAttribPointer i k g)) = drawCounts (calls g)"
  "nextBuffer (vertexAttribPointer i k g) = nextBuffer g"
  "bufferStore (vertexAttribPointer i k g) = bufferStore g"
  "elementBinding (vertexAttribPointer i k g) = elementBinding g"
  by (simp_all add: vertexAttribPointer_def glCall_simps drawCounts_append)

lemma setDynamicLightsIntoConstants_simps:
  "calls (setDynamicLightsIntoConstants M pr uw uo r g) = calls g @ lightCalls M pr uw uo r"
  "nextBuffer (setDynamicLightsIntoConstants M pr uw uo r g) = nextBuffer g"
  "bufferStore (setDynamicLightsIntoConstants M pr uw uo r g) = bufferStore g"
  "elementBinding (setDynamicLightsIntoConstants M pr uw uo r g) = elementBinding g"
  by (simp_all add: setDynamicLightsIntoConstants_def fold_glCall_simps)

lemma drawCounts_enable:
  "drawCounts (map EnableVertexAttribArray ks) = []"
  "drawCounts (map DisableVertexAttribArray ks) = []"
  by (induction ks) simp_all

lemma bindAttributes_simps:
  "drawCounts (calls (bindAttributes b g)) = drawCounts (calls g)"
  "nextBuffer (bindAttributes b g) = nextBuffer g"
  "bufferStore (bindAttributes b g) = bufferStore g"
  "elementBinding (bindAttributes b g) = Some (indexBuffer b)"
  by (cases "tangentBuffer b \<noteq> None \<and> binormalBuffer b \<noteq> None";
      simp add: bindAttributes_def Let_def bindBuffer_simps attributes_simps fold_glCall_simps
        drawCounts_append drawCounts_enable del: fold_simps list.map)+

lemma setUniforms_simps:
  "drawCounts (calls (setUniforms M pr w r g)) = drawCounts (calls g)"
  "nextBuffer (setUniforms M pr w r g) = nextBuffer g"
  "bufferStore (setUniforms M pr w r g) = bufferStore g"
  "elementBinding (setUniforms M pr w r g) = elementBinding g"
  by (cases "locLightPositions pr";
      simp add: setUniforms_def Let_def uniformMatrix4fv_simps setDynamicLightsIntoConstants_simps
        drawCounts_append drawCounts_lightCalls)+

lemma setUniforms_lights:
  "locLightPositions pr \<noteq> None \<Longrightarrow>
   \<exists>pre. calls (setUniforms M pr w r g) = pre @ lightCalls M pr w w r"
  by (simp add: setUniforms_def Let_def setDynamicLightsIntoConstants_simps)

text \<open>
  With a program bound, \<open>drawWebGlStaticGeometry\<close> issues one triangle-list draw, of the
  index buffer of the resource, allocates nothing and leaves the buffers as they are;
  for a program with a light-position location the light constants are uploaded before.
\<close>

lemma drawWebGlStaticGeometry_props:
  assumes "currentGLProgram r = Some pr"
  shows "\<exists>g'. drawWebGlStaticGeometry M b cnt r g = Inr g' \<and>
           drawCounts (calls g')
             = drawCounts (calls g) @ [case cnt of None \<Rightarrow> indexCount b | Some c \<Rightarrow> c] \<and>
           DrawElements (case cnt of None \<Rightarrow> indexCount b | Some c \<Rightarrow> c) (Some (indexBuffer b))
             \<in> set (calls g') \<and>
           bufferStore g' = bufferStore g \<and>
           nextBuffer g' = nextBuffer g \<and>
           (locLightPositions pr \<noteq> None \<longrightarrow>
              set (lightCalls M pr (tangentBuffer b \<noteq> None \<and> binormalBuffer b \<noteq> None)
                     (tangentBuffer b \<noteq> None \<and> binormalBuffer b \<noteq> None) r) \<subseteq> set (calls g'))"
proof -
  let ?w = "tangentBuffer b \<noteq> None \<and> binormalBuffer b \<noteq> None"
  let ?c = "case cnt of None \<Rightarrow> indexCount b | Some c \<Rightarrow> c"
  let ?g13 = "setUniforms M pr ?w r (bindAttributes b g)"
  let ?g14 = "drawElements ?c ?g13"
  let ?g' = "if ?w then fold glCall (map DisableVertexAttribArray [5, 6]) ?g14 else ?g14"
  have e: "drawWebGlStaticGeometry M b cnt r g = Inr ?g'"
    using assms by (simp add: drawWebGlStaticGeometry_def Let_def del: fold_simps list.map)
  have c14: "calls ?g14 = calls ?g13 @ [DrawElements ?c (Some (indexBuffer b))]"
    by (simp add: drawElements_def glCall_simps setUniforms_simps bindAttributes_simps)
  define post :: "'a glcall list" where
    "post = (if ?w then map DisableVertexAttribArray [5, 6] else [])"
  have ifc: "calls (if w then fold glCall ds G else G) = calls G @ (if w then ds else [])"
    for w ds and G :: "'a GL"
    by (simp add: fold_glCall_simps)
  have post: "calls ?g' = calls ?g13 @ [DrawElements ?c (Some (indexBuffer b))] @ post"
    "drawCounts post = []"
    unfolding ifc c14 post_def by (simp_all add: drawCounts_enable del: list.map)
  have d: "drawCounts (calls ?g') = drawCounts (calls g) @ [?c]"
    unfolding post(1) by (simp add: drawCounts_append post(2) setUniforms_simps bindAttributes_simps)
  have m: "DrawElements ?c (Some (indexBuffer b)) \<in> set (calls ?g')"
    unfolding post(1) by simp
  have st: "bufferStore ?g' = bufferStore g" "nextBuffer ?g' = nextBuffer g"
    by (cases ?w; simp add: fold_glCall_simps drawElements_def glCall_simps setUniforms_simps
          bindAttributes_simps)+
  have l: "set (lightCalls M pr ?w ?w r) \<subseteq> set (calls ?g')" if lp: "locLightPositions pr \<noteq> None"
  proof -
    obtain pre where "calls ?g13 = pre @ lightCalls M pr ?w ?w r"
      using setUniforms_lights [OF lp] by blast
    then show ?thesis unfolding post(1) by auto
  qed
  from e d m st l show ?thesis by blast
qed

lemma tangentData_RendererNativeArray:
  "tangentData (buf\<lparr>RendererNativeArray := x\<rparr>) = tangentData buf"
  by (simp add: tangentData_def cong: option.case_cong)

lemma freshResource_RendererNativeArray:
  "freshResource M (buf\<lparr>RendererNativeArray := x\<rparr>) g = freshResource M buf g"
  by (simp add: freshResource_def tangentData_RendererNativeArray rewoundIndices_def)

lemma tangentsCoverVertices_RendererNativeArray:
  "tangentsCoverVertices (buf\<lparr>RendererNativeArray := x\<rparr>) = tangentsCoverVertices buf"
  by (simp add: tangentsCoverVertices_def cong: option.case_cong)

lemma updateRendererNativeArray_grown:
  assumes "Vertices buf \<noteq> []" and "Indices buf \<noteq> []"
    and "RendererNativeArray buf = Some rna"
    and "vertexCount rna < length (Vertices buf) \<or> indexCount rna < length (Indices buf)"
  shows "updateRendererNativeArray M buf g
           = createRendererNativeArray M (buf\<lparr>RendererNativeArray := None\<rparr>) g"
  using assms by (simp add: updateRendererNativeArray_def)

text \<open>The two ways in which \<open>drawMeshBuffer\<close> comes to build a resource from scratch.\<close>

lemma rebuild_path:
  assumes "tangentsCoverVertices buf"
    and "RendererNativeArray buf = None \<or>
         (\<exists>rna. RendererNativeArray buf = Some rna \<and> OnlyUpdateBufferIfPossible buf \<and>
                Vertices buf \<noteq> [] \<and> Indices buf \<noteq> [] \<and>
                (vertexCount rna < length (Vertices buf) \<or> indexCount rna < length (Indices buf)))"
  shows "(if RendererNativeArray buf = None then createRendererNativeArray M buf g
          else if OnlyUpdateBufferIfPossible buf then updateRendererNativeArray M buf g
          else if OnlyPositionsChanged buf then Inr (updatePositionsInRendererNativeArray buf g)
          else Inr (buf, g))
         = Inr (buf\<lparr>RendererNativeArray := Some (fst (freshResource M buf g)),
                    OnlyPositionsChanged := False, OnlyUpdateBufferIfPossible := False\<rparr>,
                snd (freshResource M buf g))"
proof (cases "RendererNativeArray buf")
  case None
  show ?thesis
    by (simp only: None createRendererNativeArray_new [OF None assms(1)]) simp
next
  case (Some rna)
  then have u: "updateRendererNativeArray M buf g
                  = createRendererNativeArray M (buf\<lparr>RendererNativeArray := None\<rparr>) g"
    and o: "OnlyUpdateBufferIfPossible buf"
    using assms(2) by (auto intro: updateRendererNativeArray_grown)
  have n: "RendererNativeArray (buf\<lparr>RendererNativeArray := None\<rparr>) = None"
    by simp
  have t: "tangentsCoverVertices (buf\<lparr>RendererNativeArray := None\<rparr>)"
    using assms(1) by (simp only: tangentsCoverVertices_RendererNativeArray)
  have c: "createRendererNativeArray M (buf\<lparr>RendererNativeArray := None\<rparr>) g
          = Inr (buf\<lparr>RendererNativeArray := Some (fst (freshResource M buf g)),
                     OnlyPositionsChanged := False, OnlyUpdateBufferIfPossible := False\<rparr>,
                 snd (freshResource M buf g))"
    unfolding createRendererNativeArray_new [OF n t] freshResource_RendererNativeArray
    by simp
  have ne: "RendererNativeArray buf \<noteq> None" using Some by simp
  show ?thesis
    by (simp only: ne o if_True if_False u c)
qed

lemma freshResource_simps:
  "positionsArray (fst (freshResource M buf g)) = concat (map posComps (Vertices buf))"
  "colorArray (fst (freshResource M buf g)) = concat (map (colorComps M) (Vertices buf))"
  "indexCount (fst (freshResource M buf g)) = length (Indices buf)"
  "vertexCount (fst (freshResource M buf g)) = length (Vertices buf)"
  "calls (snd (freshResource M buf g)) = calls g"
  "nextBuffer g < nextBuffer (snd (freshResource M buf g))"
  "bufferContents (snd (freshResource M buf g)) (indexBuffer (fst (freshResource M buf g)))
     = Some (ShortData (rewoundIndices buf))"
  by (simp_all add: freshResource_def uploadNativeArray_fields uploadNativeArray_context
        uploadNativeArray_contents split: option.splits)

lemma freshResource_deviceContents:
  "deviceContents (snd (freshResource M buf g)) (fst (freshResource M buf g))
     = deviceContents (snd (freshResource M buf g0)) (fst (freshResource M buf g0))"
  by (simp add: freshResource_def uploadNativeArray_contents)

lemma freshResource_handles:
  "h \<in> set (handles (fst (freshResource M buf g))) \<Longrightarrow>
   nextBuffer g \<le> h \<and> h < nextBuffer (snd (freshResource M buf g))"
  by (auto simp: freshResource_def uploadNativeArray_handles uploadNativeArray_context
        split: option.splits)

lemma drawMeshBuffer_rebuild:
  assumes "tangentsCoverVertices buf"
    and "RendererNativeArray buf = None \<or>
         (\<exists>rna. RendererNativeArray buf = Some rna \<and> OnlyUpdateBufferIfPossible buf \<and>
                Vertices buf \<noteq> [] \<and> Indices buf \<noteq> [] \<and>
                (vertexCount rna < length (Vertices buf) \<or> indexCount rna < length (Indices buf)))"
    and "gl r = Some g" and "currentGLProgram r = Some pr"
  shows "\<exists>g'. drawMeshBuffer M buf cnt r
                = Inr (buf\<lparr>RendererNativeArray := Some (fst (freshResource M buf g)),
                           OnlyPositionsChanged := False, OnlyUpdateBufferIfPossible := False\<rparr>,
                       r\<lparr>gl := Some g'\<rparr>) \<and>
              drawCounts (calls g')
                = drawCounts (calls g) @ [case cnt of None \<Rightarrow> length (Indices buf) | Some c \<Rightarrow> c] \<and>
              DrawElements (case cnt of None \<Rightarrow> length (Indices buf) | Some c \<Rightarrow> c)
                 (Some (indexBuffer (fst (freshResource M buf g)))) \<in> set (calls g') \<and>
              bufferStore g' = bufferStore (snd (freshResource M buf g)) \<and>
              nextBuffer g' = nextBuffer (snd (freshResource M buf g))"
proof -
  let ?F = "freshResource M buf g"
  obtain g' where d: "drawWebGlStaticGeometry M (fst ?F) cnt r (snd ?F) = Inr g'"
    and p: "drawCounts (calls g')
              = drawCounts (calls (snd ?F)) @ [case cnt of None \<Rightarrow> indexCount (fst ?F) | Some c \<Rightarrow> c]"
      "DrawElements (case cnt of None \<Rightarrow> indexCount (fst ?F) | Some c \<Rightarrow> c) (Some (indexBuffer (fst ?F)))
         \<in> set (calls g')"
      "bufferStore g' = bufferStore (snd ?F)" "nextBuffer g' = nextBuffer (snd ?F)"
    using drawWebGlStaticGeometry_props [OF assms(4), of M "fst ?F" cnt "snd ?F"] by blast
  have "drawMeshBuffer M buf cnt r
          = Inr (buf\<lparr>RendererNativeArray := Some (fst ?F),
                     OnlyPositionsChanged := False, OnlyUpdateBufferIfPossible := False\<rparr>,
                 r\<lparr>gl := Some g'\<rparr>)"
    unfolding drawMeshBuffer_def rebuild_path [OF assms(1,2)]
    using assms(3) d by (simp add: Let_def)
  with p [unfolded freshResource_simps] show ?thesis
    by (intro exI [of _ g']) simp
qed

lemma length_rewoundIndices: "length (rewoundIndices buf) = length (Indices buf)"
  by (simp add: rewoundIndices_def length_rewindLoop newUint16Array_def)

lemma bufferContents_cong:
  "bufferStore g' = bufferStore g \<Longrightarrow> bufferContents g' h = bufferContents g h"
  by (simp add: bufferContents_def)

lemma uint_index:
  "0 \<le> i \<Longrightarrow> i < 65536 \<Longrightarrow> uint (word_of_int i :: 16 word) = i"
  by (rule word_of_int_inverse [OF refl]) simp_all

text \<open>
  C2, as amended. For a buffer with nonempty vertex and index lists that has no device resource, or
  that is updated after its lists grew beyond the stored counts, drawing it without an
  index count issues one triangle-list draw of \<open>length Indices\<close> indices from the
  index buffer of the resource, and that buffer holds, for every triangle \<open>t\<close>, the
  indices \<open>3t\<close>, \<open>3t+2\<close>, \<open>3t+1\<close> of the list, in this order, as unsigned
  16-bit values (which are the list's values when these are from 0 to 65535).
\<close>

theorem C2_draw_count_and_rewound_indices:
  assumes "Vertices buf \<noteq> []" and "Indices buf \<noteq> []"
    and "tangentsCoverVertices buf"
    and "gl r = Some g" and "currentGLProgram r = Some pr"
    and "RendererNativeArray buf = None \<or>
         (\<exists>rna. RendererNativeArray buf = Some rna \<and> OnlyUpdateBufferIfPossible buf \<and>
                (vertexCount rna < length (Vertices buf) \<or> indexCount rna < length (Indices buf)))"
  shows "\<exists>buf' r' g' b dev.
           drawMeshBuffer M buf None r = Inr (buf', r') \<and>
           gl r' = Some g' \<and> RendererNativeArray buf' = Some b \<and>
           drawCounts (calls g') = drawCounts (calls g) @ [length (Indices buf)] \<and>
           DrawElements (length (Indices buf)) (Some (indexBuffer b)) \<in> set (calls g') \<and>
           bufferContents g' (indexBuffer b) = Some (ShortData dev) \<and>
           length dev = length (Indices buf) \<and>
           (\<forall>t. 3 * t + 2 < length (Indices buf) \<longrightarrow>
                dev ! (3 * t) = word_of_int (Indices buf ! (3 * t)) \<and>
                dev ! (3 * t + 1) = word_of_int (Indices buf ! (3 * t + 2)) \<and>
                dev ! (3 * t + 2) = word_of_int (Indices buf ! (3 * t + 1))) \<and>
           ((\<forall>i < length (Indices buf). 0 \<le> Indices buf ! i \<and> Indices buf ! i < 65536) \<longrightarrow>
              (\<forall>t. 3 * t + 2 < length (Indices buf) \<longrightarrow>
                 uint (dev ! (3 * t)) = Indices buf ! (3 * t) \<and>
                 uint (dev ! (3 * t + 1)) = Indices buf ! (3 * t + 2) \<and>
                 uint (dev ! (3 * t + 2)) = Indices buf ! (3 * t + 1)))"
proof -
  let ?F = "freshResource M buf g"
  let ?dev = "rewoundIndices buf"
  have path: "RendererNativeArray buf = None \<or>
         (\<exists>rna. RendererNativeArray buf = Some rna \<and> OnlyUpdateBufferIfPossible buf \<and>
                Vertices buf \<noteq> [] \<and> Indices buf \<noteq> [] \<and>
                (vertexCount rna < length (Vertices buf) \<or> indexCount rna < length (Indices buf)))"
    using assms(1,2,6) by blast
  obtain g' where d: "drawMeshBuffer M buf None r
                = Inr (buf\<lparr>RendererNativeArray := Some (fst ?F),
                           OnlyPositionsChanged := False, OnlyUpdateBufferIfPossible := False\<rparr>,
                       r\<lparr>gl := Some g'\<rparr>)"
    and c: "drawCounts (calls g') = drawCounts (calls g) @ [length (Indices buf)]"
    and m: "DrawElements (length (Indices buf)) (Some (indexBuffer (fst ?F))) \<in> set (calls g')"
    and st: "bufferStore g' = bufferStore (snd ?F)"
    using drawMeshBuffer_rebuild [OF assms(3) path assms(4,5), of M None] by auto
  have dc: "bufferContents g' (indexBuffer (fst ?F)) = Some (ShortData ?dev)"
    using bufferContents_cong [OF st] by (simp add: freshResource_simps)
  have tri: "\<forall>t. 3 * t + 2 < length (Indices buf) \<longrightarrow>
                ?dev ! (3 * t) = word_of_int (Indices buf ! (3 * t)) \<and>
                ?dev ! (3 * t + 1) = word_of_int (Indices buf ! (3 * t + 2)) \<and>
                ?dev ! (3 * t + 2) = word_of_int (Indices buf ! (3 * t + 1))"
    using rewound_triangle [of _ "Indices buf"] by (simp add: rewoundIndices_def)
  have ex: "(\<forall>i < length (Indices buf). 0 \<le> Indices buf ! i \<and> Indices buf ! i < 65536) \<longrightarrow>
              (\<forall>t. 3 * t + 2 < length (Indices buf) \<longrightarrow>
                 uint (?dev ! (3 * t)) = Indices buf ! (3 * t) \<and>
                 uint (?dev ! (3 * t + 1)) = Indices buf ! (3 * t + 2) \<and>
                 uint (?dev ! (3 * t + 2)) = Indices buf ! (3 * t + 1))"
  proof (intro impI allI)
    fix t
    assume r: "\<forall>i < length (Indices buf). 0 \<le> Indices buf ! i \<and> Indices buf ! i < 65536"
      and t: "3 * t + 2 < length (Indices buf)"
    have "3 * t < length (Indices buf)" "3 * t + 1 < length (Indices buf)" using t by simp_all
    with r t tri show "uint (?dev ! (3 * t)) = Indices buf ! (3 * t) \<and>
                 uint (?dev ! (3 * t + 1)) = Indices buf ! (3 * t + 2) \<and>
                 uint (?dev ! (3 * t + 2)) = Indices buf ! (3 * t + 1)"
      by (simp add: uint_index)
  qed
  have g1: "gl (r\<lparr>gl := Some g'\<rparr>) = Some g'" by simp
  have b1: "RendererNativeArray (buf\<lparr>RendererNativeArray := Some (fst ?F),
                           OnlyPositionsChanged := False, OnlyUpdateBufferIfPossible := False\<rparr>)
              = Some (fst ?F)" by simp
  have len: "length ?dev = length (Indices buf)" by (rule length_rewoundIndices)
  from d g1 b1 c m dc len tri ex show ?thesis
    by (intro exI conjI)
qed

theorem C2_draw_count_and_rewound_indices_witness:
  "\<exists>buf' r' g' b.
     drawMeshBuffer exampleOps exampleQuad None exampleRenderer = Inr (buf', r') \<and>
     gl r' = Some g' \<and> RendererNativeArray buf' = Some b \<and>
     drawCounts (calls g') = [6] \<and>
     bufferContents g' (indexBuffer b) = Some (ShortData [0, 2, 1, 0, 3, 2])"
proof -
  have h: "Vertices exampleQuad \<noteq> []" "Indices exampleQuad \<noteq> []"
    "tangentsCoverVertices exampleQuad" "gl exampleRenderer = Some exampleGL"
    "currentGLProgram exampleRenderer = Some exampleProgram"
    by code_simp+
  have n: "RendererNativeArray exampleQuad = None" by code_simp
  have path: "RendererNativeArray exampleQuad = None \<or>
         (\<exists>rna. RendererNativeArray exampleQuad = Some rna \<and> OnlyUpdateBufferIfPossible exampleQuad \<and>
                (vertexCount rna < length (Vertices exampleQuad) \<or>
                 indexCount rna < length (Indices exampleQuad)))"
    using n by (rule disjI1)
  obtain buf' r' g' b dev where
    d: "drawMeshBuffer exampleOps exampleQuad None exampleRenderer = Inr (buf', r')"
    and g: "gl r' = Some g'" and b: "RendererNativeArray buf' = Some b"
    and c: "drawCounts (calls g') = drawCounts (calls exampleGL) @ [length (Indices exampleQuad)]"
    and dc: "bufferContents g' (indexBuffer b) = Some (ShortData dev)"
    using C2_draw_count_and_rewound_indices [OF h(1-3) h(4,5) path, of exampleOps] by blast
  have ev: "drawCounts (calls exampleGL) @ [length (Indices exampleQuad)] = [6]"
    by code_simp
  have evd: "case drawMeshBuffer exampleOps exampleQuad None exampleRenderer of
               Inl e \<Rightarrow> False
             | Inr x \<Rightarrow>
                 (case gl (snd x) of
                    None \<Rightarrow> False
                  | Some g' \<Rightarrow>
                      (case RendererNativeArray (fst x) of
                         None \<Rightarrow> False
                       | Some b \<Rightarrow> bufferContents g' (indexBuffer b)
                                    = Some (ShortData [0, 2, 1, 0, 3, 2])))"
    by code_simp
  have dc': "bufferContents g' (indexBuffer b) = Some (ShortData [0, 2, 1, 0, 3, 2])"
    using evd d g b by simp
  from d g b c [unfolded ev] dc' show ?thesis by (intro exI conjI)
qed

text \<open>
  The index 65536 of the list reaches the device as 0: the index buffer holds the
  triple \<open>(0, 2, 1)\<close>, not \<open>(65536, 2, 1)\<close>.
\<close>

theorem C2_index_beyond_16_bits_counterexample:
  "Indices exampleWide = [65536, 1, 2] \<and>
   bufferContents
     (the (gl (snd (projr (drawMeshBuffer exampleOps exampleWide None exampleRenderer)))))
     (indexBuffer (the (RendererNativeArray (fst (projr
        (drawMeshBuffer exampleOps exampleWide None exampleRenderer))))))
     = Some (ShortData [0, 2, 1])"
  by code_simp

text \<open>
  C9, as amended. For a buffer without a device resource whose vertex list or index list
  is empty, the draw raises no error, but creation is not a no-op: device buffers are
  allocated, a resource with the two counts is attached to the buffer, and a
  triangle-list draw with the length of the index list as its count is issued.
\<close>

theorem C9_empty_buffer_gets_a_resource_and_a_draw:
  assumes "Vertices buf = [] \<or> Indices buf = []"
    and "RendererNativeArray buf = None"
    and "tangentsCoverVertices buf"
    and "gl r = Some g" and "currentGLProgram r = Some pr"
  shows "\<exists>buf' r' g' b.
           drawMeshBuffer M buf None r = Inr (buf', r') \<and>
           gl r' = Some g' \<and> RendererNativeArray buf' = Some b \<and>
           Vertices buf' = Vertices buf \<and> Indices buf' = Indices buf \<and>
           vertexCount b = length (Vertices buf) \<and> indexCount b = length (Indices buf) \<and>
           nextBuffer g < nextBuffer g' \<and>
           drawCounts (calls g') = drawCounts (calls g) @ [length (Indices buf)]"
proof -
  let ?F = "freshResource M buf g"
  have path: "RendererNativeArray buf = None \<or>
         (\<exists>rna. RendererNativeArray buf = Some rna \<and> OnlyUpdateBufferIfPossible buf \<and>
                Vertices buf \<noteq> [] \<and> Indices buf \<noteq> [] \<and>
                (vertexCount rna < length (Vertices buf) \<or> indexCount rna < length (Indices buf)))"
    using assms(2) by blast
  obtain g' where d: "drawMeshBuffer M buf None r
                = Inr (buf\<lparr>RendererNativeArray := Some (fst ?F),
                           OnlyPositionsChanged := False, OnlyUpdateBufferIfPossible := False\<rparr>,
                       r\<lparr>gl := Some g'\<rparr>)"
    and c: "drawCounts (calls g') = drawCounts (calls g) @ [length (Indices buf)]"
    and n: "nextBuffer g' = nextBuffer (snd ?F)"
    using drawMeshBuffer_rebuild [OF assms(3) path assms(4,5), of M None] by auto
  let ?b' = "buf\<lparr>RendererNativeArray := Some (fst ?F),
                  OnlyPositionsChanged := False, OnlyUpdateBufferIfPossible := False\<rparr>"
  have g1: "gl (r\<lparr>gl := Some g'\<rparr>) = Some g'" by simp
  have b1: "RendererNativeArray ?b' = Some (fst ?F)" by simp
  have v1: "Vertices ?b' = Vertices buf" "Indices ?b' = Indices buf" by simp_all
  have k: "vertexCount (fst ?F) = length (Vertices buf)" "indexCount (fst ?F) = length (Indices buf)"
    by (simp_all add: freshResource_simps)
  have nb: "nextBuffer g < nextBuffer g'" unfolding n by (rule freshResource_simps)
  from d g1 b1 v1 k nb c show ?thesis
    by (intro exI conjI)
qed

theorem C9_empty_buffer_gets_a_resource_and_a_draw_witness:
  "\<exists>buf' r' g' b.
     drawMeshBuffer exampleOps exampleEmpty None exampleRenderer = Inr (buf', r') \<and>
     gl r' = Some g' \<and> RendererNativeArray buf' = Some b \<and>
     vertexCount b = 0 \<and> indexCount b = 0 \<and>
     nextBuffer exampleGL < nextBuffer g' \<and> drawCounts (calls g') = [0]"
proof -
  have h: "Vertices exampleEmpty = [] \<or> Indices exampleEmpty = []"
    "RendererNativeArray exampleEmpty = None"
    "tangentsCoverVertices exampleEmpty" "gl exampleRenderer = Some exampleGL"
    "currentGLProgram exampleRenderer = Some exampleProgram"
    by code_simp+
  have ev: "length (Vertices exampleEmpty) = 0" "length (Indices exampleEmpty) = 0"
    "drawCounts (calls exampleGL) @ [length (Indices exampleEmpty)] = [0]"
    by code_simp+
  obtain buf' r' g' b where
    d: "drawMeshBuffer exampleOps exampleEmpty None exampleRenderer = Inr (buf', r')"
    and g: "gl r' = Some g'" and b: "RendererNativeArray buf' = Some b"
    and v: "vertexCount b = length (Vertices exampleEmpty)"
    and i: "indexCount b = length (Indices exampleEmpty)"
    and n: "nextBuffer exampleGL < nextBuffer g'"
    and c: "drawCounts (calls g') = drawCounts (calls exampleGL) @ [length (Indices exampleEmpty)]"
    using C9_empty_buffer_gets_a_resource_and_a_draw [OF h, of exampleOps] by blast
  from d g b v [unfolded ev(1)] i [unfolded ev(2)] n c [unfolded ev(3)]
  show ?thesis by (intro exI conjI)
qed

text \<open>
  Drawing the buffer without vertices and indices attaches a resource to it, takes six
  buffer handles from the context and issues a draw call.
\<close>

theorem C9_empty_create_counterexample:
  "RendererNativeArray (fst (projr (createRendererNativeArray exampleOps exampleEmpty exampleGL)))
     \<noteq> None \<and>
   nextBuffer (snd (projr (createRendererNativeArray exampleOps exampleEmpty exampleGL))) = 6 \<and>
   drawCounts (calls (the (gl (snd (projr
       (drawMeshBuffer exampleOps exampleEmpty None exampleRenderer)))))) = [0]"
  by code_simp

text \<open>
  C4. For a buffer with nonempty lists and a device resource whose stored vertex count
  or index count is smaller than the list, the size-preserving update returns what a
  from-scratch creation returns: a resource whose arrays, counts and device contents are
  those of a creation from the same data on any context, with handles that the context
  had not handed out before.
\<close>

theorem C4_update_after_growth_is_a_fresh_create:
  assumes "Vertices buf \<noteq> []" and "Indices buf \<noteq> []"
    and "RendererNativeArray buf = Some rna"
    and "vertexCount rna < length (Vertices buf) \<or> indexCount rna < length (Indices buf)"
    and "tangentsCoverVertices buf"
  shows "\<exists>bufU gU bU bufC gC bC.
           updateRendererNativeArray M buf g = Inr (bufU, gU) \<and>
           RendererNativeArray bufU = Some bU \<and>
           createRendererNativeArray M (buf\<lparr>RendererNativeArray := None\<rparr>) g0 = Inr (bufC, gC) \<and>
           RendererNativeArray bufC = Some bC \<and>
           positionsArray bU = positionsArray bC \<and>
           colorArray bU = colorArray bC \<and>
           vertexCount bU = vertexCount bC \<and>
           indexCount bU = indexCount bC \<and>
           deviceContents gU bU = deviceContents gC bC \<and>
           (\<forall>h \<in> set (handles bU). nextBuffer g \<le> h \<and> h < nextBuffer gU)"
proof -
  have n: "RendererNativeArray (buf\<lparr>RendererNativeArray := None\<rparr>) = None" by simp
  have t: "tangentsCoverVertices (buf\<lparr>RendererNativeArray := None\<rparr>)"
    using assms(5) by (simp only: tangentsCoverVertices_RendererNativeArray)
  have c: "createRendererNativeArray M (buf\<lparr>RendererNativeArray := None\<rparr>) g'
          = Inr (buf\<lparr>RendererNativeArray := Some (fst (freshResource M buf g')),
                     OnlyPositionsChanged := False, OnlyUpdateBufferIfPossible := False\<rparr>,
                 snd (freshResource M buf g'))" for g' :: "'a GL"
    unfolding createRendererNativeArray_new [OF n t] freshResource_RendererNativeArray
    by simp
  have u: "updateRendererNativeArray M buf g
          = Inr (buf\<lparr>RendererNativeArray := Some (fst (freshResource M buf g)),
                     OnlyPositionsChanged := False, OnlyUpdateBufferIfPossible := False\<rparr>,
                 snd (freshResource M buf g))"
    unfolding updateRendererNativeArray_grown [OF assms(1-4)] by (rule c)
  let ?U = "freshResource M buf g" and ?C = "freshResource M buf g0"
  have bU: "RendererNativeArray (buf\<lparr>RendererNativeArray := Some (fst ?U),
              OnlyPositionsChanged := False, OnlyUpdateBufferIfPossible := False\<rparr>) = Some (fst ?U)"
    by simp
  have bC: "RendererNativeArray (buf\<lparr>RendererNativeArray := Some (fst ?C),
              OnlyPositionsChanged := False, OnlyUpdateBufferIfPossible := False\<rparr>) = Some (fst ?C)"
    by simp
  have e: "positionsArray (fst ?U) = positionsArray (fst ?C)" "colorArray (fst ?U) = colorArray (fst ?C)"
    "vertexCount (fst ?U) = vertexCount (fst ?C)" "indexCount (fst ?U) = indexCount (fst ?C)"
    by (simp_all add: freshResource_simps)
  have dcs: "deviceContents (snd ?U) (fst ?U) = deviceContents (snd ?C) (fst ?C)"
    by (rule freshResource_deviceContents)
  have fr: "\<forall>h \<in> set (handles (fst ?U)). nextBuffer g \<le> h \<and> h < nextBuffer (snd ?U)"
    using freshResource_handles [of _ M buf g] by blast
  from u bU c [of g0] bC e dcs fr show ?thesis
    by (intro exI conjI)
qed

theorem C4_update_after_growth_is_a_fresh_create_witness:
  "\<exists>bufU gU bU bufC gC bC.
     updateRendererNativeArray exampleOps exampleGrown exampleGL1 = Inr (bufU, gU) \<and>
     RendererNativeArray bufU = Some bU \<and>
     createRendererNativeArray exampleOps (exampleGrown\<lparr>RendererNativeArray := None\<rparr>) exampleGL
       = Inr (bufC, gC) \<and>
     RendererNativeArray bufC = Some bC \<and>
     positionsArray bU = positionsArray bC \<and> colorArray bU = colorArray bC \<and>
     vertexCount bU = 5 \<and> indexCount bU = 9 \<and>
     deviceContents gU bU = deviceContents gC bC \<and>
     handles bU = [6, 7, 8, 9, 10, 11]"
proof -
  have rna: "RendererNativeArray exampleGrown = Some (the (RendererNativeArray exampleGrown))"
    by code_simp
  have h: "Vertices exampleGrown \<noteq> []" "Indices exampleGrown \<noteq> []"
    "vertexCount (the (RendererNativeArray exampleGrown)) < length (Vertices exampleGrown) \<or>
     indexCount (the (RendererNativeArray exampleGrown)) < length (Indices exampleGrown)"
    "tangentsCoverVertices exampleGrown"
    by code_simp+
  obtain bufU gU bU bufC gC bC where
    u: "updateRendererNativeArray exampleOps exampleGrown exampleGL1 = Inr (bufU, gU)"
    and bU: "RendererNativeArray bufU = Some bU"
    and c: "createRendererNativeArray exampleOps (exampleGrown\<lparr>RendererNativeArray := None\<rparr>)
              exampleGL = Inr (bufC, gC)"
    and bC: "RendererNativeArray bufC = Some bC"
    and e: "positionsArray bU = positionsArray bC" "colorArray bU = colorArray bC"
      "vertexCount bU = vertexCount bC" "indexCount bU = indexCount bC"
      "deviceContents gU bU = deviceContents gC bC"
    using C4_update_after_growth_is_a_fresh_create
            [OF h(1,2) rna h(3,4), of exampleOps exampleGL1 exampleGL]
    by blast
  have evc: "case createRendererNativeArray exampleOps (exampleGrown\<lparr>RendererNativeArray := None\<rparr>)
                   exampleGL of
               Inl e \<Rightarrow> False
             | Inr x \<Rightarrow> (case RendererNativeArray (fst x) of
                           None \<Rightarrow> False
                         | Some b \<Rightarrow> vertexCount b = 5 \<and> indexCount b = 9)"
    by code_simp
  have evu: "case updateRendererNativeArray exampleOps exampleGrown exampleGL1 of
               Inl e \<Rightarrow> False
             | Inr x \<Rightarrow> (case RendererNativeArray (fst x) of
                           None \<Rightarrow> False
                         | Some b \<Rightarrow> handles b = [6, 7, 8, 9, 10, 11])"
    by code_simp
  have k: "vertexCount bC = 5" "indexCount bC = 9" using evc c bC by simp_all
  have hs: "handles bU = [6, 7, 8, 9, 10, 11]" using evu u bU by simp
  from u bU c bC e(1,2) e(3) [unfolded k] e(4) [unfolded k] e(5) hs
  show ?thesis by (intro exI conjI)
qed

section \<open>Updating a resource in place\<close>

lemma updateRendererNativeArray_in_place:
  assumes "Vertices buf \<noteq> []" and "Indices buf \<noteq> []"
    and "RendererNativeArray buf = Some rna"
    and "length (Vertices buf) \<le> vertexCount rna" and "length (Indices buf) \<le> indexCount rna"
  shows "updateRendererNativeArray M buf g
           = Inr (buf\<lparr>RendererNativeArray :=
                        Some (rna\<lparr>positionsArray := fillPerVertex 3 posComps (Vertices buf) (positionsArray rna),
                                  colorArray := fillPerVertex 4 (colorComps M) (Vertices buf) (colorArray rna),
                                  indexBuffer := indexBuffer rna,
                                  indexCount := length (Indices buf),
                                  vertexCount := length (Vertices buf)\<rparr>)\<rparr>,
                  bufferSubData ARRAY_BUFFER (fillPerVertex 4 (colorComps M) (Vertices buf) (colorArray rna))
                    (bindBuffer ARRAY_BUFFER (Some (colorBuffer rna))
                       (bufferSubData ARRAY_BUFFER
                          (fillPerVertex 3 posComps (Vertices buf) (positionsArray rna))
                          (bindBuffer ARRAY_BUFFER (Some (positionBuffer rna)) g))))"
proof -
  have a: "\<not> (length (Vertices buf) = 0 \<or> length (Indices buf) = 0)"
    using assms(1,2) by simp
  have b: "\<not> vertexCount rna < length (Vertices buf)"
    using assms(4) by simp
  have c: "\<not> indexCount rna < length (Indices buf)"
    using assms(5) by simp
  show ?thesis
    unfolding updateRendererNativeArray_def
    by (simp only: a b c if_False simp_thms assms(3) option.case Let_def fst_conv snd_conv)
qed

text \<open>
  \<open>bindBuffer\<close> and \<open>bufferSubData\<close> with an array of the size of the buffer replace
  the data of that buffer and of no other.
\<close>

lemma bufferSubData_contents:
  assumes "bufferContents g h = Some (FloatData old)" and "length d = length old"
  shows "bufferContents (bufferSubData ARRAY_BUFFER d (bindBuffer ARRAY_BUFFER (Some h) g)) k
           = (if k = h then Some (FloatData d) else bufferContents g k)"
  using assms by (simp add: bufferSubData_def binding_def bindBuffer_def bufferContents_def)

lemma uploadNativeArray_position_color:
  "bufferContents (snd (uploadNativeArray pa t1 t2 na tb ca ia ic len g))
     (positionBuffer (fst (uploadNativeArray pa t1 t2 na tb ca ia ic len g))) = Some (FloatData pa)"
  "bufferContents (snd (uploadNativeArray pa t1 t2 na tb ca ia ic len g))
     (colorBuffer (fst (uploadNativeArray pa t1 t2 na tb ca ia ic len g))) = Some (FloatData ca)"
  by (cases tb; simp add: uploadNativeArray_def Let_def createAndFill_simps bindBuffer_simps)+

lemma freshResource_position_color:
  "bufferContents (snd (freshResource M buf g)) (positionBuffer (fst (freshResource M buf g)))
     = Some (FloatData (positionsArray (fst (freshResource M buf g))))"
  "bufferContents (snd (freshResource M buf g)) (colorBuffer (fst (freshResource M buf g)))
     = Some (FloatData (colorArray (fst (freshResource M buf g))))"
  by (simp_all add: freshResource_def uploadNativeArray_position_color uploadNativeArray_fields)

text \<open>
  C5, as amended. For a buffer with nonempty lists and a device resource whose stored
  counts are not smaller than the lists (whose two arrays have room for the stored
  vertex count, and whose position buffer and colour buffer are two buffers of the
  context with the sizes of the two arrays), the size-preserving update allocates
  nothing and leaves every handle of the resource as it was; it overwrites the leading
  three entries per vertex of the position array and the leading four entries per vertex
  of the colour array with what a from-scratch creation puts into its arrays, and leaves
  the entries behind them as they were; it uploads the two arrays, so that after it the
  position buffer and the colour buffer of the context hold these arrays, as they hold
  the arrays of the creation after a creation, and every other buffer of the context
  holds what it held before. The arrays, and with them the two buffers, are as a whole
  those of a from-scratch creation when they have no entries behind the leading ones.
\<close>

theorem C5_update_in_place_keeps_handles_and_rewrites_prefix:
  assumes "Vertices buf \<noteq> []" and "Indices buf \<noteq> []"
    and "RendererNativeArray buf = Some rna"
    and "length (Vertices buf) \<le> vertexCount rna" and "length (Indices buf) \<le> indexCount rna"
    and "3 * vertexCount rna \<le> length (positionsArray rna)"
    and "4 * vertexCount rna \<le> length (colorArray rna)"
    and "tangentsCoverVertices buf"
    and "bufferContents g (positionBuffer rna) = Some (FloatData p0)"
    and "length p0 = length (positionsArray rna)"
    and "bufferContents g (colorBuffer rna) = Some (FloatData c0)"
    and "length c0 = length (colorArray rna)"
    and "positionBuffer rna \<noteq> colorBuffer rna"
  shows "\<exists>bufU gU bU bufC gC bC.
           updateRendererNativeArray M buf g = Inr (bufU, gU) \<and>
           RendererNativeArray bufU = Some bU \<and>
           createRendererNativeArray M (buf\<lparr>RendererNativeArray := None\<rparr>) g0 = Inr (bufC, gC) \<and>
           RendererNativeArray bufC = Some bC \<and>
           bU = rna\<lparr>positionsArray := positionsArray bU, colorArray := colorArray bU,
                    indexCount := length (Indices buf), vertexCount := length (Vertices buf)\<rparr> \<and>
           nextBuffer gU = nextBuffer g \<and>
           positionsArray bU = positionsArray bC @ drop (length (positionsArray bC)) (positionsArray rna) \<and>
           colorArray bU = colorArray bC @ drop (length (colorArray bC)) (colorArray rna) \<and>
           length (positionsArray bC) = 3 * length (Vertices buf) \<and>
           length (colorArray bC) = 4 * length (Vertices buf) \<and>
           bufferContents gU (positionBuffer bU) = Some (FloatData (positionsArray bU)) \<and>
           bufferContents gU (colorBuffer bU) = Some (FloatData (colorArray bU)) \<and>
           bufferContents gC (positionBuffer bC) = Some (FloatData (positionsArray bC)) \<and>
           bufferContents gC (colorBuffer bC) = Some (FloatData (colorArray bC)) \<and>
           (\<forall>k. k \<noteq> positionBuffer rna \<and> k \<noteq> colorBuffer rna \<longrightarrow>
                bufferContents gU k = bufferContents g k)"
proof -
  let ?P = "fillPerVertex 3 posComps (Vertices buf) (positionsArray rna)"
  let ?C = "fillPerVertex 4 (colorComps M) (Vertices buf) (colorArray rna)"
  let ?bU = "rna\<lparr>positionsArray := ?P, colorArray := ?C, indexBuffer := indexBuffer rna,
                  indexCount := length (Indices buf), vertexCount := length (Vertices buf)\<rparr>"
  let ?g1 = "bufferSubData ARRAY_BUFFER ?P (bindBuffer ARRAY_BUFFER (Some (positionBuffer rna)) g)"
  let ?gU = "bufferSubData ARRAY_BUFFER ?C (bindBuffer ARRAY_BUFFER (Some (colorBuffer rna)) ?g1)"
  let ?F = "freshResource M buf g0"
  let ?bufC = "buf\<lparr>RendererNativeArray := Some (fst ?F),
                   OnlyPositionsChanged := False, OnlyUpdateBufferIfPossible := False\<rparr>"
  have u: "updateRendererNativeArray M buf g = Inr (buf\<lparr>RendererNativeArray := Some ?bU\<rparr>, ?gU)"
    by (rule updateRendererNativeArray_in_place [OF assms(1-5)])
  have bU: "RendererNativeArray (buf\<lparr>RendererNativeArray := Some ?bU\<rparr>) = Some ?bU" by simp
  have n: "RendererNativeArray (buf\<lparr>RendererNativeArray := None\<rparr>) = None" by simp
  have t: "tangentsCoverVertices (buf\<lparr>RendererNativeArray := None\<rparr>)"
    using assms(8) by (simp only: tangentsCoverVertices_RendererNativeArray)
  have c: "createRendererNativeArray M (buf\<lparr>RendererNativeArray := None\<rparr>) g0 = Inr (?bufC, snd ?F)"
    unfolding createRendererNativeArray_new [OF n t] freshResource_RendererNativeArray
    by simp
  have bC: "RendererNativeArray ?bufC = Some (fst ?F)" by simp
  have h: "?bU = rna\<lparr>positionsArray := positionsArray ?bU, colorArray := colorArray ?bU,
                    indexCount := length (Indices buf), vertexCount := length (Vertices buf)\<rparr>"
    by simp
  have nb: "nextBuffer ?gU = nextBuffer g"
    by (simp add: bufferSubData_simps bindBuffer_simps)
  have lp: "3 * length (Vertices buf) \<le> length (positionsArray rna)"
    and lc: "4 * length (Vertices buf) \<le> length (colorArray rna)"
    using assms(4,6,7) by simp_all
  have pC: "positionsArray (fst ?F) = concat (map posComps (Vertices buf))"
    and cC: "colorArray (fst ?F) = concat (map (colorComps M) (Vertices buf))"
    by (simp_all add: freshResource_simps)
  have lp': "length (concat (map posComps (Vertices buf))) = 3 * length (Vertices buf)"
    and lc': "length (concat (map (colorComps M) (Vertices buf))) = 4 * length (Vertices buf)"
    by (simp_all add: length_concat_fixed [OF comps_length(1)] length_concat_fixed [OF comps_length(5)])
  have lpC: "length (positionsArray (fst ?F)) = 3 * length (Vertices buf)"
    and lcC: "length (colorArray (fst ?F)) = 4 * length (Vertices buf)"
    unfolding pC cC by (rule lp', rule lc')
  have p: "positionsArray ?bU
             = positionsArray (fst ?F) @ drop (length (positionsArray (fst ?F))) (positionsArray rna)"
    unfolding pC lp' using fillPerVertex_conv [OF comps_length(1) lp] by simp
  have cl: "colorArray ?bU
             = colorArray (fst ?F) @ drop (length (colorArray (fst ?F))) (colorArray rna)"
    unfolding cC lc' using fillPerVertex_conv [OF comps_length(5) lc] by simp
  have lP: "length ?P = length p0" and lC: "length ?C = length c0"
    using assms(10,12) by (simp_all add: length_fillPerVertex)
  have k1: "bufferContents ?g1 k
              = (if k = positionBuffer rna then Some (FloatData ?P) else bufferContents g k)" for k
    by (rule bufferSubData_contents [OF assms(9) lP])
  have c1: "bufferContents ?g1 (colorBuffer rna) = Some (FloatData c0)"
    unfolding k1 using assms(11,13) by simp
  have kU: "bufferContents ?gU k
              = (if k = colorBuffer rna then Some (FloatData ?C)
                 else if k = positionBuffer rna then Some (FloatData ?P)
                 else bufferContents g k)" for k
    unfolding bufferSubData_contents [OF c1 lC] k1 by (rule refl)
  have dP: "bufferContents ?gU (positionBuffer ?bU) = Some (FloatData (positionsArray ?bU))"
    unfolding kU using assms(13) by simp
  have dC: "bufferContents ?gU (colorBuffer ?bU) = Some (FloatData (colorArray ?bU))"
    unfolding kU by simp
  have dO: "\<forall>k. k \<noteq> positionBuffer rna \<and> k \<noteq> colorBuffer rna \<longrightarrow>
                bufferContents ?gU k = bufferContents g k"
    unfolding kU by simp
  have fP: "bufferContents (snd ?F) (positionBuffer (fst ?F)) = Some (FloatData (positionsArray (fst ?F)))"
    and fC: "bufferContents (snd ?F) (colorBuffer (fst ?F)) = Some (FloatData (colorArray (fst ?F)))"
    by (rule freshResource_position_color)+
  from u bU c bC h nb p cl lpC lcC dP dC fP fC dO show ?thesis
    by (intro exI conjI)
qed

theorem C5_update_in_place_keeps_handles_and_rewrites_prefix_witness:
  "\<exists>bufU gU bU bufC gC bC.
     updateRendererNativeArray exampleOps exampleMoved exampleGL1 = Inr (bufU, gU) \<and>
     RendererNativeArray bufU = Some bU \<and>
     createRendererNativeArray exampleOps (exampleMoved\<lparr>RendererNativeArray := None\<rparr>) exampleGL
       = Inr (bufC, gC) \<and>
     RendererNativeArray bufC = Some bC \<and>
     handles bU = [0, 1, 2, 3, 4, 5] \<and> nextBuffer gU = 6 \<and>
     positionsArray bU = positionsArray bC \<and> colorArray bU = colorArray bC \<and>
     positionsArray bU = [0, 0, 0, 2, 0, 0, 2, 2, 0, 0, 2, 0] \<and>
     bufferContents exampleGL1 (positionBuffer bU)
       = Some (FloatData [0, 0, 0, 1, 0, 0, 1, 1, 0, 0, 1, 0]) \<and>
     bufferContents gU (positionBuffer bU) = Some (FloatData [0, 0, 0, 2, 0, 0, 2, 2, 0, 0, 2, 0]) \<and>
     bufferContents gC (positionBuffer bC) = Some (FloatData [0, 0, 0, 2, 0, 0, 2, 2, 0, 0, 2, 0]) \<and>
     bufferContents gU (colorBuffer bU) = Some (FloatData (colorArray bC))"
proof -
  let ?R = "the (RendererNativeArray exampleMoved)"
  have rna: "RendererNativeArray exampleMoved = Some ?R"
    by code_simp
  have h: "Vertices exampleMoved \<noteq> []" "Indices exampleMoved \<noteq> []"
    "length (Vertices exampleMoved) \<le> vertexCount ?R"
    "length (Indices exampleMoved) \<le> indexCount ?R"
    "3 * vertexCount ?R \<le> length (positionsArray ?R)"
    "4 * vertexCount ?R \<le> length (colorArray ?R)"
    "tangentsCoverVertices exampleMoved"
    "bufferContents exampleGL1 (positionBuffer ?R) = Some (FloatData (positionsArray ?R))"
    "length (positionsArray ?R) = length (positionsArray ?R)"
    "bufferContents exampleGL1 (colorBuffer ?R) = Some (FloatData (colorArray ?R))"
    "length (colorArray ?R) = length (colorArray ?R)"
    "positionBuffer ?R \<noteq> colorBuffer ?R"
    by code_simp+
  have ev: "handles ?R = [0, 1, 2, 3, 4, 5]"
    "nextBuffer exampleGL1 = 6"
    "length (positionsArray ?R) = 12"
    "length (colorArray ?R) = 16"
    "length (Vertices exampleMoved) = 4"
    "positionsArray ?R = [0, 0, 0, 1, 0, 0, 1, 1, 0, 0, 1, 0]"
    by code_simp+
  obtain bufU gU bU bufC gC bC where
    u: "updateRendererNativeArray exampleOps exampleMoved exampleGL1 = Inr (bufU, gU)"
    and bU: "RendererNativeArray bufU = Some bU"
    and c: "createRendererNativeArray exampleOps (exampleMoved\<lparr>RendererNativeArray := None\<rparr>)
              exampleGL = Inr (bufC, gC)"
    and bC: "RendererNativeArray bufC = Some bC"
    and k: "bU = ?R\<lparr>positionsArray := positionsArray bU, colorArray := colorArray bU,
                    indexCount := length (Indices exampleMoved),
                    vertexCount := length (Vertices exampleMoved)\<rparr>"
    and n: "nextBuffer gU = nextBuffer exampleGL1"
    and p: "positionsArray bU = positionsArray bC
              @ drop (length (positionsArray bC)) (positionsArray ?R)"
    and cl: "colorArray bU = colorArray bC
              @ drop (length (colorArray bC)) (colorArray ?R)"
    and lp: "length (positionsArray bC) = 3 * length (Vertices exampleMoved)"
    and lc: "length (colorArray bC) = 4 * length (Vertices exampleMoved)"
    and dP: "bufferContents gU (positionBuffer bU) = Some (FloatData (positionsArray bU))"
    and dC: "bufferContents gU (colorBuffer bU) = Some (FloatData (colorArray bU))"
    and fP: "bufferContents gC (positionBuffer bC) = Some (FloatData (positionsArray bC))"
    using C5_update_in_place_keeps_handles_and_rewrites_prefix
            [OF h(1,2) rna h(3-12), of exampleOps exampleGL]
    by blast
  have hs: "handles bU = handles ?R"
    by (subst k) (simp add: handles_def)
  have pb: "positionBuffer bU = positionBuffer ?R"
    by (subst k) simp
  have p': "positionsArray bU = positionsArray bC" using p lp ev(3,5) by simp
  have c': "colorArray bU = colorArray bC" using cl lc ev(4,5) by simp
  have evc: "case createRendererNativeArray exampleOps (exampleMoved\<lparr>RendererNativeArray := None\<rparr>)
                   exampleGL of
               Inl e \<Rightarrow> False
             | Inr x \<Rightarrow> (case RendererNativeArray (fst x) of
                           None \<Rightarrow> False
                         | Some b \<Rightarrow> positionsArray b = [0, 0, 0, 2, 0, 0, 2, 2, 0, 0, 2, 0])"
    by code_simp
  have pc: "positionsArray bC = [0, 0, 0, 2, 0, 0, 2, 2, 0, 0, 2, 0]"
    using evc c bC by simp
  have old: "bufferContents exampleGL1 (positionBuffer bU)
               = Some (FloatData [0, 0, 0, 1, 0, 0, 1, 1, 0, 0, 1, 0])"
    unfolding pb h(8) ev(6) by (rule refl)
  from u bU c bC hs [unfolded ev(1)] n [unfolded ev(2)] p' c' p' [unfolded pc] old
    dP [unfolded p' pc] fP [unfolded pc] dC [unfolded c']
  show ?thesis by (intro exI conjI)
qed

text \<open>
  After the quad has shrunk to one vertex, the position array of the updated resource
  and the position buffer of the context keep their twelve entries, nine of them from
  the old data, where a creation from the same data makes an array and a buffer of
  three.
\<close>

theorem C5_shrunk_buffer_counterexample:
  "positionsArray (the (RendererNativeArray (fst (projr
       (updateRendererNativeArray exampleOps exampleShrunk exampleGL1)))))
     = [5, 5, 0, 1, 0, 0, 1, 1, 0, 0, 1, 0] \<and>
   bufferContents (snd (projr (updateRendererNativeArray exampleOps exampleShrunk exampleGL1)))
     (positionBuffer (the (RendererNativeArray (fst (projr
        (updateRendererNativeArray exampleOps exampleShrunk exampleGL1))))))
     = Some (FloatData [5, 5, 0, 1, 0, 0, 1, 1, 0, 0, 1, 0]) \<and>
   positionsArray (the (RendererNativeArray (fst (projr
       (createRendererNativeArray exampleOps (exampleShrunk\<lparr>RendererNativeArray := None\<rparr>)
          exampleGL)))))
     = [5, 5, 0] \<and>
   bufferContents (snd (projr
       (createRendererNativeArray exampleOps (exampleShrunk\<lparr>RendererNativeArray := None\<rparr>)
          exampleGL)))
     (positionBuffer (the (RendererNativeArray (fst (projr
        (createRendererNativeArray exampleOps (exampleShrunk\<lparr>RendererNativeArray := None\<rparr>)
           exampleGL))))))
     = Some (FloatData [5, 5, 0])"
  by code_simp

section \<open>Properties of the light constants\<close>

lemma uniform4fvCalls_append:
  "uniform4fvCalls (xs @ ys) = uniform4fvCalls xs @ uniform4fvCalls ys"
  by (induction xs rule: uniform4fvCalls.induct) simp_all

lemma uniform4fvCalls_lightCalls:
  "uniform4fvCalls (lightCalls M pr uw uo r)
     = [(locLightPositions pr, fst (lightArrays M uw uo r)),
        (locLightColors pr, snd (lightArrays M uw uo r))]"
  by (simp add: lightCalls_def Let_def split: option.splits)

lemma uniform4fvCalls_enable:
  "uniform4fvCalls (map EnableVertexAttribArray ks) = []"
  "uniform4fvCalls (map DisableVertexAttribArray ks) = []"
  by (induction ks) simp_all

lemma uniform4fvCalls_stages:
  "uniform4fvCalls (calls (uniformMatrix4fv loc m g)) = uniform4fvCalls (calls g)"
  "uniform4fvCalls (calls (vertexAttribPointer i k g)) = uniform4fvCalls (calls g)"
  "uniform4fvCalls (calls (drawElements c g)) = uniform4fvCalls (calls g)"
  by (cases loc; simp add: uniformMatrix4fv_def vertexAttribPointer_def drawElements_def
        glCall_simps uniform4fvCalls_append)+

lemma uniform4fvCalls_bindAttributes:
  "uniform4fvCalls (calls (bindAttributes b g)) = uniform4fvCalls (calls g)"
  by (cases "tangentBuffer b \<noteq> None \<and> binormalBuffer b \<noteq> None";
      simp add: bindAttributes_def Let_def bindBuffer_simps uniform4fvCalls_stages fold_glCall_simps
        uniform4fvCalls_append uniform4fvCalls_enable del: fold_simps list.map)

lemma uniform4fvCalls_setUniforms:
  "locLightPositions pr \<noteq> None \<Longrightarrow>
   uniform4fvCalls (calls (setUniforms M pr w r g))
     = uniform4fvCalls (calls g) @
       [(locLightPositions pr, fst (lightArrays M w w r)),
        (locLightColors pr, snd (lightArrays M w w r))]"
  by (simp add: setUniforms_def Let_def uniform4fvCalls_stages setDynamicLightsIntoConstants_simps
        uniform4fvCalls_append uniform4fvCalls_lightCalls)

lemma drawWebGlStaticGeometry_lights:
  assumes "currentGLProgram r = Some pr" and "locLightPositions pr \<noteq> None"
  shows "\<exists>g'. drawWebGlStaticGeometry M b cnt r g = Inr g' \<and>
           uniform4fvCalls (calls g')
             = uniform4fvCalls (calls g) @
               [(locLightPositions pr,
                 fst (lightArrays M (tangentBuffer b \<noteq> None \<and> binormalBuffer b \<noteq> None)
                        (tangentBuffer b \<noteq> None \<and> binormalBuffer b \<noteq> None) r)),
                (locLightColors pr,
                 snd (lightArrays M (tangentBuffer b \<noteq> None \<and> binormalBuffer b \<noteq> None)
                        (tangentBuffer b \<noteq> None \<and> binormalBuffer b \<noteq> None) r))]"
proof -
  let ?w = "tangentBuffer b \<noteq> None \<and> binormalBuffer b \<noteq> None"
  let ?c = "case cnt of None \<Rightarrow> indexCount b | Some c \<Rightarrow> c"
  let ?g13 = "setUniforms M pr ?w r (bindAttributes b g)"
  let ?g14 = "drawElements ?c ?g13"
  let ?g' = "if ?w then fold glCall (map DisableVertexAttribArray [5, 6]) ?g14 else ?g14"
  have e: "drawWebGlStaticGeometry M b cnt r g = Inr ?g'"
    using assms(1) by (simp add: drawWebGlStaticGeometry_def Let_def del: fold_simps list.map)
  have ifc: "uniform4fvCalls (calls (if w then fold glCall (map DisableVertexAttribArray ks) G else G))
               = uniform4fvCalls (calls G)"
    for w ks and G :: "'a GL"
    by (simp add: fold_glCall_simps uniform4fvCalls_append uniform4fvCalls_enable del: list.map)
  have u: "uniform4fvCalls (calls ?g')
             = uniform4fvCalls (calls g) @
               [(locLightPositions pr, fst (lightArrays M ?w ?w r)),
                (locLightColors pr, snd (lightArrays M ?w ?w r))]"
    unfolding ifc uniform4fvCalls_stages uniform4fvCalls_setUniforms [OF assms(2)]
      uniform4fvCalls_bindAttributes
    by (rule refl)
  from e u show ?thesis by blast
qed


text \<open>Every path of \<open>drawMeshBuffer\<close> to the draw leaves the buffer with a resource.\<close>

lemma prepare_resource:
  assumes "tangentsCoverVertices buf"
  shows "\<exists>buf1 g1 b.
           (if RendererNativeArray buf = None then createRendererNativeArray M buf g
            else if OnlyUpdateBufferIfPossible buf then updateRendererNativeArray M buf g
            else if OnlyPositionsChanged buf then Inr (updatePositionsInRendererNativeArray buf g)
            else Inr (buf, g)) = Inr (buf1, g1) \<and>
           RendererNativeArray buf1 = Some b \<and> calls g1 = calls g"
proof (cases "RendererNativeArray buf")
  case None
  show ?thesis
    by (simp add: None createRendererNativeArray_new [OF None assms] freshResource_simps)
next
  case (Some rna)
  have n: "RendererNativeArray (buf\<lparr>RendererNativeArray := None\<rparr>) = None" by simp
  have t: "tangentsCoverVertices (buf\<lparr>RendererNativeArray := None\<rparr>)"
    using assms by (simp only: tangentsCoverVertices_RendererNativeArray)
  have u: "\<exists>buf1 g1 b. updateRendererNativeArray M buf g = Inr (buf1, g1) \<and>
             RendererNativeArray buf1 = Some b \<and> calls g1 = calls g"
  proof -
    consider "Vertices buf = [] \<or> Indices buf = []"
      | "Vertices buf \<noteq> []" "Indices buf \<noteq> []"
        "vertexCount rna < length (Vertices buf) \<or> indexCount rna < length (Indices buf)"
      | "Vertices buf \<noteq> []" "Indices buf \<noteq> []"
        "length (Vertices buf) \<le> vertexCount rna" "length (Indices buf) \<le> indexCount rna"
      by linarith
    then show ?thesis
    proof cases
      case 1
      then have "updateRendererNativeArray M buf g = Inr (buf, g)"
        by (auto simp: updateRendererNativeArray_def)
      with Some show ?thesis by simp
    next
      case 2
      show ?thesis
        unfolding updateRendererNativeArray_grown [OF 2(1,2) Some 2(3)]
          createRendererNativeArray_new [OF n t]
        by (simp add: freshResource_simps freshResource_RendererNativeArray)
    next
      case 3
      show ?thesis
        unfolding updateRendererNativeArray_in_place [OF 3(1,2) Some 3(3,4)]
        by (simp add: bufferSubData_simps bindBuffer_simps)
    qed
  qed
  have p: "\<exists>buf1 g1 b. updatePositionsInRendererNativeArray buf g = (buf1, g1) \<and>
             RendererNativeArray buf1 = Some b \<and> calls g1 = calls g"
    by (simp add: updatePositionsInRendererNativeArray_def Some Let_def bufferSubData_simps
          bindBuffer_simps)
  have ne: "RendererNativeArray buf \<noteq> None" using Some by simp
  show ?thesis
  proof (cases "OnlyUpdateBufferIfPossible buf")
    case True
    show ?thesis using u by (simp only: ne True if_True if_False)
  next
    case False
    show ?thesis
    proof (cases "OnlyPositionsChanged buf")
      case True
      show ?thesis using p by (simp only: ne \<open>\<not> OnlyUpdateBufferIfPossible buf\<close> True if_True if_False sum.inject)
    next
      case F2: False
      show ?thesis using Some by (simp add: False F2)
    qed
  qed
qed

lemma drawMeshBuffer_lights:
  assumes "tangentsCoverVertices buf" and "gl r = Some g"
    and "currentGLProgram r = Some pr" and "locLightPositions pr \<noteq> None"
  shows "\<exists>buf' g' b.
           drawMeshBuffer M buf cnt r = Inr (buf', r\<lparr>gl := Some g'\<rparr>) \<and>
           RendererNativeArray buf' = Some b \<and>
           uniform4fvCalls (calls g')
             = uniform4fvCalls (calls g) @
               [(locLightPositions pr,
                 fst (lightArrays M (tangentBuffer b \<noteq> None \<and> binormalBuffer b \<noteq> None)
                        (tangentBuffer b \<noteq> None \<and> binormalBuffer b \<noteq> None) r)),
                (locLightColors pr,
                 snd (lightArrays M (tangentBuffer b \<noteq> None \<and> binormalBuffer b \<noteq> None)
                        (tangentBuffer b \<noteq> None \<and> binormalBuffer b \<noteq> None) r))]"
proof -
  obtain buf1 g1 b where
    pr: "(if RendererNativeArray buf = None then createRendererNativeArray M buf g
          else if OnlyUpdateBufferIfPossible buf then updateRendererNativeArray M buf g
          else if OnlyPositionsChanged buf then Inr (updatePositionsInRendererNativeArray buf g)
          else Inr (buf, g)) = Inr (buf1, g1)"
    and b: "RendererNativeArray buf1 = Some b" and c: "calls g1 = calls g"
    using prepare_resource [OF assms(1), of M g] by blast
  let ?w = "tangentBuffer b \<noteq> None \<and> binormalBuffer b \<noteq> None"
  obtain g' where d: "drawWebGlStaticGeometry M b cnt r g1 = Inr g'"
    and u: "uniform4fvCalls (calls g')
             = uniform4fvCalls (calls g1) @
               [(locLightPositions pr, fst (lightArrays M ?w ?w r)),
                (locLightColors pr, snd (lightArrays M ?w ?w r))]"
    using drawWebGlStaticGeometry_lights [OF assms(3,4), of M b cnt g1] by blast
  let ?buf' = "buf1\<lparr>OnlyPositionsChanged := False, OnlyUpdateBufferIfPossible := False\<rparr>"
  have b': "RendererNativeArray ?buf' = Some b" using b by simp
  have "drawMeshBuffer M buf cnt r = Inr (?buf', r\<lparr>gl := Some g'\<rparr>)"
    by (simp only: drawMeshBuffer_def assms(2) option.case pr sum.case Let_def fst_conv snd_conv
          b' d)
  with b' u [unfolded c] show ?thesis by blast
qed


text \<open>The two arrays, slot by slot.\<close>

lemma packed_length:
  "length (packedPosition M mat uo ls i) = 4" "length (packedColor ls i) = 4"
  by (simp_all add: packedPosition_def packedColor_def)

lemma lightSlot_writeAt:
  "lightSlot M mat uo ls i arrs
     = (writeAt (fst arrs) (i * 4) (packedPosition M mat uo ls i),
        writeAt (snd arrs) (i * 4) (packedColor ls i))"
  by (simp add: lightSlot_def packedPosition_def packedColor_def Let_def eval_nat_numeral)

lemma fold_lightSlot:
  "fold (lightSlot M mat uo ls) ks arrs
     = (fold (\<lambda>i a. writeAt a (i * 4) (packedPosition M mat uo ls i)) ks (fst arrs),
        fold (\<lambda>i a. writeAt a (i * 4) (packedColor ls i)) ks (snd arrs))"
  by (induction ks arbitrary: arrs) (simp_all add: lightSlot_writeAt)

lemma fold_four_slots:
  assumes "\<forall>i. length (f i) = 4" and "16 \<le> length arr"
  shows "fold (\<lambda>i a. writeAt a (i * 4) (f i)) [0, 1, 2, 3] arr
           = f 0 @ f 1 @ f 2 @ f 3 @ drop 16 arr"
proof -
  have e: "[0, 1, 2, 3] = [0..<4]" by (simp add: upt_rec)
  have "fold (\<lambda>i a. writeAt a (i * 4) (f i)) [0..<4] arr
          = fold (\<lambda>i a. writeAt a (i * 4) (f ([0..<4] ! i))) [0..<4] arr"
    by (rule fold_cong) simp_all
  also have "\<dots> = concat (map f (take 4 [0..<4])) @ drop (4 * 4) arr"
    using assms(2) by (intro fill_prefix [OF assms(1)]) simp_all
  also have "\<dots> = f 0 @ f 1 @ f 2 @ f 3 @ drop 16 arr"
    unfolding e [symmetric] by simp
  finally show ?thesis unfolding e .
qed

lemma lightArrays_slots:
  "fst (lightArrays M uw uo r)
     = packedPosition M (lightMatrix M uw r) uo (Lights r) 0 @
       packedPosition M (lightMatrix M uw r) uo (Lights r) 1 @
       packedPosition M (lightMatrix M uw r) uo (Lights r) 2 @
       packedPosition M (lightMatrix M uw r) uo (Lights r) 3"
  "snd (lightArrays M uw uo r)
     = packedColor (Lights r) 0 @ packedColor (Lights r) 1 @
       packedColor (Lights r) 2 @ packedColor (Lights r) 3 @
       [R (Renderer.AmbientLight r), G (Renderer.AmbientLight r), B (Renderer.AmbientLight r), 1]"
proof -
  let ?p = "packedPosition M (lightMatrix M uw r) uo (Lights r)"
  let ?c = "packedColor (Lights r)"
  have lp: "\<forall>i. length (?p i) = 4" and lc: "\<forall>i. length (?c i) = 4"
    by (simp_all add: packed_length)
  have p: "fold (\<lambda>i a. writeAt a (i * 4) (?p i)) [0, 1, 2, 3] (newFloat32Array (4 * 4))
             = ?p 0 @ ?p 1 @ ?p 2 @ ?p 3"
    using fold_four_slots [OF lp, of "newFloat32Array (4 * 4)"] by (simp add: newFloat32Array_def)
  have c: "fold (\<lambda>i a. writeAt a (i * 4) (?c i)) [0, 1, 2, 3] (newFloat32Array (5 * 4))
             = ?c 0 @ ?c 1 @ ?c 2 @ ?c 3 @ [0, 0, 0, 0]"
    using fold_four_slots [OF lc, of "newFloat32Array (5 * 4)"]
    by (simp add: newFloat32Array_def eval_nat_numeral)
  show "fst (lightArrays M uw uo r) = ?p 0 @ ?p 1 @ ?p 2 @ ?p 3"
    unfolding lightArrays_def Let_def fold_lightSlot fst_conv snd_conv p by (rule refl)
  have u: "(a @ b @ c @ d @ [0, 0, 0, 0])[16 := x, 17 := y, 18 := z, 19 := w] = a @ b @ c @ d @ [x, y, z, w]"
    if "length a = 4" "length b = 4" "length c = 4" "length d = 4"
    for a b c d :: "real list" and x y z w
    using that by (simp add: list_update_append)
  show "snd (lightArrays M uw uo r)
     = ?c 0 @ ?c 1 @ ?c 2 @ ?c 3 @
       [R (Renderer.AmbientLight r), G (Renderer.AmbientLight r), B (Renderer.AmbientLight r), 1]"
    unfolding lightArrays_def Let_def fold_lightSlot fst_conv snd_conv c
    by (rule u) (simp_all add: packed_length)
qed

lemma slot_of_four:
  assumes "length a = 4" and "length b = 4" and "length c = 4" and "length d = 4" and "i < 4"
  shows "slot i (a @ b @ c @ d @ e) = [a, b, c, d] ! i"
proof -
  consider "i = 0" | "i = 1" | "i = 2" | "i = 3" using assms(5) by linarith
  then show ?thesis by cases (simp_all add: slot_def assms(1-4))
qed

lemma slot_last:
  assumes "length a = 4" and "length b = 4" and "length c = 4" and "length d = 4" and "length e = 4"
  shows "slot 4 (a @ b @ c @ d @ e) = e"
  by (simp add: slot_def assms)

lemma lightArrays_slot:
  assumes "i < 4"
  shows "slot i (fst (lightArrays M uw uo r)) = packedPosition M (lightMatrix M uw r) uo (Lights r) i"
    and "slot i (snd (lightArrays M uw uo r)) = packedColor (Lights r) i"
proof -
  consider "i = 0" | "i = 1" | "i = 2" | "i = 3" using assms by linarith
  note cs = this
  have p: "slot i (fst (lightArrays M uw uo r))
         = [packedPosition M (lightMatrix M uw r) uo (Lights r) 0,
            packedPosition M (lightMatrix M uw r) uo (Lights r) 1,
            packedPosition M (lightMatrix M uw r) uo (Lights r) 2,
            packedPosition M (lightMatrix M uw r) uo (Lights r) 3] ! i"
    unfolding lightArrays_slots
    using slot_of_four [OF packed_length(1) packed_length(1) packed_length(1) packed_length(1) assms,
            where e = "[]"]
    by simp
  have c: "slot i (snd (lightArrays M uw uo r))
         = [packedColor (Lights r) 0, packedColor (Lights r) 1, packedColor (Lights r) 2,
            packedColor (Lights r) 3] ! i"
    unfolding lightArrays_slots
    by (rule slot_of_four [OF packed_length(2) packed_length(2) packed_length(2) packed_length(2) assms])
  from cs show "slot i (fst (lightArrays M uw uo r))
                  = packedPosition M (lightMatrix M uw r) uo (Lights r) i"
    unfolding p by cases simp_all
  from cs show "slot i (snd (lightArrays M uw uo r)) = packedColor (Lights r) i"
    unfolding c by cases simp_all
qed

lemma lightArrays_ambient:
  "slot 4 (snd (lightArrays M uw uo r))
     = [R (Renderer.AmbientLight r), G (Renderer.AmbientLight r), B (Renderer.AmbientLight r), 1]"
  unfolding lightArrays_slots
  by (rule slot_last) (simp_all add: packed_length)

lemma lightArrays_length:
  "length (fst (lightArrays M uw uo r)) = 4 * 4" "length (snd (lightArrays M uw uo r)) = 5 * 4"
  unfolding lightArrays_slots by (simp_all add: packed_length)

text \<open>The light pass hands the point lights to the renderer nearest first.\<close>

lemma OnRegisterSceneNode_lights:
  "LightsToRender (OnRegisterSceneNode regs t)
     = LightsToRender t @ registeredIn RENDER_MODE_LIGHTS regs"
  unfolding OnRegisterSceneNode_def registeredIn_def
  by (induction regs arbitrary: t)
     (simp_all add: registerNodeForRendering_def Let_def RENDER_MODE_TRANSPARENT_def
        RENDER_MODE_CAMERA_def RENDER_MODE_SKYBOX_def RENDER_MODE_LIGHTS_def
        RENDER_MODE_DEFAULT_def RENDER_MODE_2DOVERLAY_def split: option.splits)

lemma registerForRendering_lights:
  "LightsToRender (registerForRendering regs s) = registeredIn RENDER_MODE_LIGHTS regs"
  by (simp add: registerForRendering_def OnRegisterSceneNode_lights)

lemma sortedLights_camera:
  assumes "cameraPosition N s = Some camPos"
  shows "sortedLights M N s =
           sort_key (\<lambda>n. getDistanceFromSQ M camPos (getAbsolutePosition N n)) (LightsToRender s)"
  using assms
  by (cases "LightsToRender s") (simp_all add: sortedLights_def arraySort_lightCompare)

lemma fold_renderLightNode:
  "Lights (fold (renderLightNode ld) ns r)
     = Lights r @ map ld (filter (\<lambda>n. \<not> IsDirectional (ld n)) ns)"
  by (induction ns arbitrary: r)
     (simp_all add: renderLightNode_def addDynamicLight_def setDirectionalLight_def)

lemma lightPass_lights:
  assumes "render N RENDER_MODE_LIGHTS = renderLightNode ld"
  shows "Lights (lightPass M N s r)
           = map ld (filter (\<lambda>n. \<not> IsDirectional (ld n)) (sortedLights M N s))"
  by (simp add: lightPass_def renderNodes_def assms fold_renderLightNode clearDynamicLights_def)

lemma drawAll_light_calls:
  "renderedIn RENDER_MODE_LIGHTS (snd (snd (drawAll M N regs r s)))
     = sortedLights M N (registerForRendering regs s)"
proof -
  have m: "map snd (filter (\<lambda>c. fst c = RENDER_MODE_LIGHTS) (map (Pair k) ns))
             = (if k = RENDER_MODE_LIGHTS then ns else [])" for k and ns :: "nodeid list"
    by (cases "k = RENDER_MODE_LIGHTS") (simp_all add: filter_map comp_def)
  show ?thesis
    unfolding drawAll_def Let_def renderedIn_def
    by (simp add: m comp_def RENDER_MODE_TRANSPARENT_def RENDER_MODE_CAMERA_def
          RENDER_MODE_SKYBOX_def RENDER_MODE_LIGHTS_def RENDER_MODE_DEFAULT_def
          RENDER_MODE_2DOVERLAY_def)
qed

text \<open>
  The renderer that \<open>drawAll\<close> returns has the light list of the light pass, when
  rendering a node in another pass leaves that list as it is.
\<close>

lemma renderNodes_Lights:
  assumes "\<forall>n r. Lights (render N mode n r) = Lights r"
  shows "Lights (renderNodes N mode ns r) = Lights r"
  unfolding renderNodes_def by (induction ns arbitrary: r) (simp_all add: assms)

lemma drawAll_renderer_lights:
  assumes "\<forall>mode n r. mode \<noteq> RENDER_MODE_LIGHTS \<longrightarrow> Lights (render N mode n r) = Lights r"
  shows "\<exists>r2. Lights (fst (snd (drawAll M N regs r0 s)))
                = Lights (lightPass M N (registerForRendering regs s) r2)"
proof -
  have k: "Lights (renderNodes N mode ns r) = Lights r" if "mode \<noteq> RENDER_MODE_LIGHTS"
    for mode ns and r :: "'a Renderer"
    using assms that by (intro renderNodes_Lights) simp
  have ne: "RENDER_MODE_DEFAULT \<noteq> RENDER_MODE_LIGHTS" "RENDER_MODE_TRANSPARENT \<noteq> RENDER_MODE_LIGHTS"
    "RENDER_MODE_2DOVERLAY \<noteq> RENDER_MODE_LIGHTS"
    by (simp_all add: RENDER_MODE_DEFAULT_def RENDER_MODE_TRANSPARENT_def
          RENDER_MODE_2DOVERLAY_def RENDER_MODE_LIGHTS_def)
  show ?thesis
    unfolding drawAll_def Let_def fst_conv snd_conv k [OF ne(1)] k [OF ne(2)] k [OF ne(3)]
    by (rule exI, rule refl)
qed

text \<open>
  C3. A draw of a mesh buffer with a program that has a light-position location uploads
  two arrays: sixteen numbers, four slots of position and attenuation, and twenty
  numbers, four slots of colour and 1 and a fifth slot with the ambient colour and 1.
  With a camera, \<open>drawAll\<close> renders the registered light nodes in the order of
  increasing squared distance from the camera (nodes at the same distance in the order
  of their registration), which makes the light list of the renderer the point lights
  nearest first; slot \<open>i\<close> of the two arrays carries the light with index \<open>i\<close> of
  that list (its position, transformed by the inverse of the world matrix, or by the
  identity matrix for a resource with tangents and binormals, and its attenuation, which
  for such a resource is the inverse of the squared radius, a radius that is not zero),
  so that only its first four entries are uploaded, and a slot without a
  light carries \<open>(1, 0, 0, 1)\<close> and the colour \<open>(0, 0, 0)\<close> with 1. The
  renderer that \<open>drawAll\<close> returns has this light list when the other passes do not
  change it.
\<close>

theorem C3_four_light_slots_nearest_first:
  fixes s :: "'m Scene"
  assumes "gl r = Some g" and "currentGLProgram r = Some pr" and "locLightPositions pr \<noteq> None"
    and "tangentsCoverVertices buf"
    and "ActiveCamera s = Some cam"
    and "render N RENDER_MODE_LIGHTS = renderLightNode lightData"
    and "Lights r = Lights (lightPass M N (registerForRendering regs s) r0)"
  shows "\<exists>buf' r' g' b P C L w mat.
           drawMeshBuffer M buf cnt r = Inr (buf', r') \<and> gl r' = Some g' \<and>
           RendererNativeArray buf' = Some b \<and>
           uniform4fvCalls (calls g')
             = uniform4fvCalls (calls g) @ [(locLightPositions pr, P), (locLightColors pr, C)] \<and>
           length P = 4 * 4 \<and> length C = 5 * 4 \<and>
           slot 4 C = [R (Renderer.AmbientLight r), G (Renderer.AmbientLight r),
                       B (Renderer.AmbientLight r), 1] \<and>
           renderedIn RENDER_MODE_LIGHTS (snd (snd (drawAll M N regs r0 s)))
             = sort_key (cameraDistanceSQ M N cam) (registeredIn RENDER_MODE_LIGHTS regs) \<and>
           L = filter (\<lambda>n. \<not> IsDirectional (lightData n))
                 (sort_key (cameraDistanceSQ M N cam) (registeredIn RENDER_MODE_LIGHTS regs)) \<and>
           sorted_wrt (\<lambda>a b. cameraDistanceSQ M N cam a \<le> cameraDistanceSQ M N cam b) L \<and>
           Lights r = map lightData L \<and>
           ((\<forall>mode n r1. mode \<noteq> RENDER_MODE_LIGHTS \<longrightarrow>
                 Lights (render N mode n r1) = Lights r1) \<longrightarrow>
              Lights (fst (snd (drawAll M N regs r0 s))) = map lightData L) \<and>
           w = (tangentBuffer b \<noteq> None \<and> binormalBuffer b \<noteq> None) \<and>
           mat = (if \<not> w \<and> (length (Lights r) > 0 \<or> DirectionalLight r \<noteq> None)
                  then getInverse M (World r) (identity M)
                  else identity M) \<and>
           (\<forall>i<4. i < length L \<longrightarrow>
              ((w \<longrightarrow> Radius (lightData (L ! i)) \<noteq> 0) \<longrightarrow>
               slot i P
                 = [Vect3d.X (getTransformedVect M mat (Position (lightData (L ! i)))),
                    Vect3d.Y (getTransformedVect M mat (Position (lightData (L ! i)))),
                    Z (getTransformedVect M mat (Position (lightData (L ! i)))),
                    (if w then 1 / (Radius (lightData (L ! i)) * Radius (lightData (L ! i)))
                     else Attenuation (lightData (L ! i)))]) \<and>
              slot i C = [R (Light.Color (lightData (L ! i))), G (Light.Color (lightData (L ! i))),
                          B (Light.Color (lightData (L ! i))), 1]) \<and>
           (\<forall>i<4. length L \<le> i \<longrightarrow> slot i P = [1, 0, 0, 1] \<and> slot i C = [0, 0, 0, 1])"
proof -
  let ?s1 = "registerForRendering regs s"
  let ?key = "cameraDistanceSQ M N cam"
  let ?reg = "registeredIn RENDER_MODE_LIGHTS regs"
  let ?L = "filter (\<lambda>n. \<not> IsDirectional (lightData n)) (sort_key ?key ?reg)"
  obtain buf' g' b where
    d: "drawMeshBuffer M buf cnt r = Inr (buf', r\<lparr>gl := Some g'\<rparr>)"
    and b: "RendererNativeArray buf' = Some b"
    and u: "uniform4fvCalls (calls g')
             = uniform4fvCalls (calls g) @
               [(locLightPositions pr,
                 fst (lightArrays M (tangentBuffer b \<noteq> None \<and> binormalBuffer b \<noteq> None)
                        (tangentBuffer b \<noteq> None \<and> binormalBuffer b \<noteq> None) r)),
                (locLightColors pr,
                 snd (lightArrays M (tangentBuffer b \<noteq> None \<and> binormalBuffer b \<noteq> None)
                        (tangentBuffer b \<noteq> None \<and> binormalBuffer b \<noteq> None) r))]"
    using drawMeshBuffer_lights [OF assms(4,1,2,3), of M cnt] by blast
  let ?w = "tangentBuffer b \<noteq> None \<and> binormalBuffer b \<noteq> None"
  let ?P = "fst (lightArrays M ?w ?w r)" and ?C = "snd (lightArrays M ?w ?w r)"
  have g1: "gl (r\<lparr>gl := Some g'\<rparr>) = Some g'" by simp
  have "cameraPosition N s = Some (getAbsolutePosition N (CameraId cam))"
    using assms(5) by (simp add: cameraPosition_def)
  then have cp: "cameraPosition N ?s1 = Some (getAbsolutePosition N (CameraId cam))"
    by (simp only: cameraPosition_registerForRendering)
  have ke: "(\<lambda>n. getDistanceFromSQ M (getAbsolutePosition N (CameraId cam)) (getAbsolutePosition N n))
              = ?key"
    by (rule ext) (simp add: cameraDistanceSQ_def)
  have sl: "sortedLights M N ?s1 = sort_key ?key ?reg"
    unfolding sortedLights_camera [OF cp] registerForRendering_lights ke by (rule refl)
  have tr: "renderedIn RENDER_MODE_LIGHTS (snd (snd (drawAll M N regs r0 s))) = sort_key ?key ?reg"
    unfolding drawAll_light_calls sl by (rule refl)
  have li: "Lights r = map lightData ?L"
    unfolding assms(7) lightPass_lights [OF assms(6)] sl by (rule refl)
  have "sorted (map ?key (sort_key ?key ?reg))"
    by (rule sorted_sort_key)
  then have "sorted_wrt (\<lambda>a b. ?key a \<le> ?key b) (sort_key ?key ?reg)"
    by (simp add: sorted_map)
  then have so: "sorted_wrt (\<lambda>a b. ?key a \<le> ?key b) ?L"
    by (rule sorted_wrt_filter)
  have da: "(\<forall>mode n r1. mode \<noteq> RENDER_MODE_LIGHTS \<longrightarrow>
                 Lights (render N mode n r1) = Lights r1) \<longrightarrow>
              Lights (fst (snd (drawAll M N regs r0 s))) = map lightData ?L"
  proof
    assume keep: "\<forall>mode n r1. mode \<noteq> RENDER_MODE_LIGHTS \<longrightarrow>
                    Lights (render N mode n r1) = Lights r1"
    obtain r2 where "Lights (fst (snd (drawAll M N regs r0 s))) = Lights (lightPass M N ?s1 r2)"
      using drawAll_renderer_lights [OF keep, of M regs r0 s] by blast
    then show "Lights (fst (snd (drawAll M N regs r0 s))) = map lightData ?L"
      unfolding lightPass_lights [OF assms(6)] sl .
  qed
  have len: "length (Lights r) = length ?L" unfolding li by simp
  have on: "\<forall>i<4. i < length ?L \<longrightarrow>
              slot i ?P
                = [Vect3d.X (getTransformedVect M (lightMatrix M ?w r) (Position (lightData (?L ! i)))),
                   Vect3d.Y (getTransformedVect M (lightMatrix M ?w r) (Position (lightData (?L ! i)))),
                   Z (getTransformedVect M (lightMatrix M ?w r) (Position (lightData (?L ! i)))),
                   lightAttenuation ?w (lightData (?L ! i))] \<and>
              slot i ?C = [R (Light.Color (lightData (?L ! i))), G (Light.Color (lightData (?L ! i))),
                          B (Light.Color (lightData (?L ! i))), 1]"
  proof (intro allI impI)
    fix i :: nat
    assume i: "i < 4" and l: "i < length ?L"
    have n: "Lights r ! i = lightData (?L ! i)" unfolding li using l by (rule nth_map)
    have l': "i < length (Lights r)" using l len by simp
    show "slot i ?P
                = [Vect3d.X (getTransformedVect M (lightMatrix M ?w r) (Position (lightData (?L ! i)))),
                   Vect3d.Y (getTransformedVect M (lightMatrix M ?w r) (Position (lightData (?L ! i)))),
                   Z (getTransformedVect M (lightMatrix M ?w r) (Position (lightData (?L ! i)))),
                   lightAttenuation ?w (lightData (?L ! i))] \<and>
              slot i ?C = [R (Light.Color (lightData (?L ! i))), G (Light.Color (lightData (?L ! i))),
                          B (Light.Color (lightData (?L ! i))), 1]"
      unfolding lightArrays_slot [OF i] packedPosition_def packedColor_def
      using l' n by simp
  qed
  have off: "\<forall>i<4. length ?L \<le> i \<longrightarrow> slot i ?P = [1, 0, 0, 1] \<and> slot i ?C = [0, 0, 0, 1]"
  proof (intro allI impI)
    fix i :: nat
    assume i: "i < 4" and l: "length ?L \<le> i"
    have l': "\<not> i < length (Lights r)" using l len by simp
    show "slot i ?P = [1, 0, 0, 1] \<and> slot i ?C = [0, 0, 0, 1]"
      unfolding lightArrays_slot [OF i] packedPosition_def packedColor_def
      using l' by simp
  qed
  have lens: "length ?P = 4 * 4" "length ?C = 5 * 4"
    by (rule lightArrays_length)+
  have amb: "slot 4 ?C = [R (Renderer.AmbientLight r), G (Renderer.AmbientLight r),
                          B (Renderer.AmbientLight r), 1]"
    by (rule lightArrays_ambient)
  have Leq: "?L = ?L" by (rule refl)
  let ?mat = "if \<not> ?w \<and> (length (Lights r) > 0 \<or> DirectionalLight r \<noteq> None)
              then getInverse M (World r) (identity M)
              else identity M"
  have me: "lightMatrix M ?w r = ?mat"
    by (simp only: lightMatrix_def)
  have ae: "lightAttenuation ?w l = (if ?w then 1 / (Radius l * Radius l) else Attenuation l)" for l
    by (simp only: lightAttenuation_def)
  have on': "\<forall>i<4. i < length ?L \<longrightarrow>
              ((?w \<longrightarrow> Radius (lightData (?L ! i)) \<noteq> 0) \<longrightarrow>
               slot i ?P
                 = [Vect3d.X (getTransformedVect M ?mat (Position (lightData (?L ! i)))),
                    Vect3d.Y (getTransformedVect M ?mat (Position (lightData (?L ! i)))),
                    Z (getTransformedVect M ?mat (Position (lightData (?L ! i)))),
                    (if ?w then 1 / (Radius (lightData (?L ! i)) * Radius (lightData (?L ! i)))
                     else Attenuation (lightData (?L ! i)))]) \<and>
              slot i ?C = [R (Light.Color (lightData (?L ! i))), G (Light.Color (lightData (?L ! i))),
                          B (Light.Color (lightData (?L ! i))), 1]"
    using on [unfolded me ae] by blast
  have weq: "?w = ?w" and mateq: "?mat = ?mat" by (rule refl)+
  from d g1 b u lens amb tr Leq so li da weq mateq on' off show ?thesis
    by (intro exI conjI)
qed


theorem C3_four_light_slots_nearest_first_witness:
  "\<exists>buf' r' g'.
     drawMeshBuffer exampleOps exampleQuad None exampleLitRenderer = Inr (buf', r') \<and>
     gl r' = Some g' \<and>
     uniform4fvCalls (calls g')
       = [(Some 1, [0, 0, 0, 1, 0, 0, 0, 1, 1, 0, 0, 1, 5, 0, 0, 1]),
          (Some 2, [1, 1, 1, 1, 1, 1, 1, 1, 1, 1, 1, 1, 1, 1, 1, 1, 1 / 2, 1 / 4, 1 / 8, 1])] \<and>
     renderedIn RENDER_MODE_LIGHTS
       (snd (snd (drawAll exampleOps exampleNodeOps exampleLightRegs exampleRenderer
                    exampleLightScene))) = [4, 5, 1, 2, 3] \<and>
     Lights exampleLitRenderer = map exampleLight [4, 5, 1, 2, 3] \<and>
     Lights (fst (snd (drawAll exampleOps exampleNodeOps exampleLightRegs exampleRenderer
                         exampleLightScene))) = map exampleLight [4, 5, 1, 2, 3]"
proof -
  have h: "gl exampleLitRenderer = Some exampleGL"
    "currentGLProgram exampleLitRenderer = Some exampleProgram"
    "locLightPositions exampleProgram \<noteq> None"
    "tangentsCoverVertices exampleQuad"
    "ActiveCamera exampleLightScene = Some exampleCamera"
    by code_simp+
  have h6: "render exampleNodeOps RENDER_MODE_LIGHTS = renderLightNode exampleLight"
    by (simp add: exampleNodeOps_def)
  have h7: "Lights exampleLitRenderer
              = Lights (lightPass exampleOps exampleNodeOps
                          (registerForRendering exampleLightRegs exampleLightScene) exampleRenderer)"
    by (simp add: exampleLitRenderer_def)
  have ev: "sort_key (cameraDistanceSQ exampleOps exampleNodeOps exampleCamera)
              (registeredIn RENDER_MODE_LIGHTS exampleLightRegs) = [4, 5, 1, 2, 3]"
    "filter (\<lambda>n. \<not> IsDirectional (exampleLight n))
       (sort_key (cameraDistanceSQ exampleOps exampleNodeOps exampleCamera)
          (registeredIn RENDER_MODE_LIGHTS exampleLightRegs)) = [4, 5, 1, 2, 3]"
    by code_simp+
  have evd: "case drawMeshBuffer exampleOps exampleQuad None exampleLitRenderer of
               Inl e \<Rightarrow> False
             | Inr x \<Rightarrow>
                 (case gl (snd x) of
                    None \<Rightarrow> False
                  | Some g' \<Rightarrow>
                      uniform4fvCalls (calls g')
                        = [(Some 1, [0, 0, 0, 1, 0, 0, 0, 1, 1, 0, 0, 1, 5, 0, 0, 1]),
                           (Some 2, [1, 1, 1, 1, 1, 1, 1, 1, 1, 1, 1, 1, 1, 1, 1, 1,
                                     1 / 2, 1 / 4, 1 / 8, 1])])"
    by code_simp
  obtain buf' r' g' L where
    d: "drawMeshBuffer exampleOps exampleQuad None exampleLitRenderer = Inr (buf', r')"
    and g: "gl r' = Some g'"
    and tr: "renderedIn RENDER_MODE_LIGHTS
               (snd (snd (drawAll exampleOps exampleNodeOps exampleLightRegs exampleRenderer
                            exampleLightScene)))
             = sort_key (cameraDistanceSQ exampleOps exampleNodeOps exampleCamera)
                 (registeredIn RENDER_MODE_LIGHTS exampleLightRegs)"
    and L: "L = filter (\<lambda>n. \<not> IsDirectional (exampleLight n))
                 (sort_key (cameraDistanceSQ exampleOps exampleNodeOps exampleCamera)
                    (registeredIn RENDER_MODE_LIGHTS exampleLightRegs))"
    and li: "Lights exampleLitRenderer = map exampleLight L"
    and da: "(\<forall>mode n r1. mode \<noteq> RENDER_MODE_LIGHTS \<longrightarrow>
                 Lights (render exampleNodeOps mode n r1) = Lights r1) \<longrightarrow>
             Lights (fst (snd (drawAll exampleOps exampleNodeOps exampleLightRegs exampleRenderer
                                 exampleLightScene))) = map exampleLight L"
    using C3_four_light_slots_nearest_first [OF h(1-5) h6 h7, where cnt = None]
    by blast
  have keep: "\<forall>mode n r1. mode \<noteq> RENDER_MODE_LIGHTS \<longrightarrow>
                 Lights (render exampleNodeOps mode n r1) = Lights r1"
    by (simp add: exampleNodeOps_def)
  have da': "Lights (fst (snd (drawAll exampleOps exampleNodeOps exampleLightRegs exampleRenderer
                                 exampleLightScene))) = map exampleLight L"
    using da keep by (rule mp)
  have u: "uniform4fvCalls (calls g')
       = [(Some 1, [0, 0, 0, 1, 0, 0, 0, 1, 1, 0, 0, 1, 5, 0, 0, 1]),
          (Some 2, [1, 1, 1, 1, 1, 1, 1, 1, 1, 1, 1, 1, 1, 1, 1, 1, 1 / 2, 1 / 4, 1 / 8, 1])]"
    using evd d g by simp
  from d g u tr [unfolded ev(1)] li [unfolded L ev(2)] da' [unfolded L ev(2)] show ?thesis
    by (intro exI conjI)
qed

end
